theory Spec2Isabelle
  imports Main
begin

section \<open>Data model\<close>

text \<open>
  A shallow embedding of the run controller (\<^verbatim>\<open>src/index.ts\<close>), the seen-state store
  (\<^verbatim>\<open>src/store.ts\<close>), the notifier (\<^verbatim>\<open>notifier.ts\<close>) and the retry loop of the scraper
  (\<^verbatim>\<open>src/scraper.ts\<close>).

  Strings are lists of 8-bit characters, read as code units in the Latin-1 range; the
  string functions of the platform (\<^verbatim>\<open>toLowerCase\<close>, \<^verbatim>\<open>trim\<close>, the class \<^verbatim>\<open>\s\<close>) are
  modelled on that range.
\<close>

record listing =
  listing_id :: string
  title :: string
  price :: string
  url :: string
  location :: "string option"
  imageUrl :: "string option"

text \<open>Every exception of the program is an \<^verbatim>\<open>Error\<close> carrying its message.\<close>

datatype error = Error string

fun message :: "error \<Rightarrow> string" where
  "message (Error m) = m"

section \<open>String functions of the platform\<close>

definition isSpace :: "char \<Rightarrow> bool" where
  "isSpace c = ((of_char c :: nat) \<in> {9, 10, 11, 12, 13, 32, 160})"

definition toLowerChar :: "char \<Rightarrow> char" where
  "toLowerChar c =
     (let n = (of_char c :: nat) in
      if (65 \<le> n \<and> n \<le> 90) \<or> (192 \<le> n \<and> n \<le> 222 \<and> n \<noteq> 215)
      then char_of (n + 32) else c)"

definition toLowerCase :: "string \<Rightarrow> string" where
  "toLowerCase s = map toLowerChar s"

definition trim :: "string \<Rightarrow> string" where
  "trim s = rev (dropWhile isSpace (rev (dropWhile isSpace s)))"

text \<open>
  \<^verbatim>\<open>s.replace(/\s+/g, r)\<close>: every maximal run of white space becomes one copy of \<open>r\<close>.
  The flag says that the previous character was white space.
\<close>

fun replaceSpaces :: "string \<Rightarrow> bool \<Rightarrow> string \<Rightarrow> string" where
  "replaceSpaces r inRun [] = []"
| "replaceSpaces r inRun (c # cs) =
     (if isSpace c then (if inRun then replaceSpaces r True cs else r @ replaceSpaces r True cs)
      else c # replaceSpaces r False cs)"

text \<open>\<^verbatim>\<open>s.includes(t)\<close>\<close>

fun includes_str :: "string \<Rightarrow> string \<Rightarrow> bool" where
  "includes_str [] t = (t = [])"
| "includes_str (c # cs) t = (take (length t) (c # cs) = t \<or> includes_str cs t)"

text \<open>\<^verbatim>\<open>s.split("|||")\<close>; \<open>cur\<close> is the piece being read, reversed.\<close>

fun splitBars :: "string \<Rightarrow> string \<Rightarrow> string list" where
  "splitBars cur [] = [rev cur]"
| "splitBars cur (c # cs) =
     (if take 3 (c # cs) = ''|||'' then rev cur # splitBars [] (drop 2 cs)
      else splitBars (c # cur) cs)"

text \<open>\<^verbatim>\<open>xs.join(sep)\<close>\<close>

fun join :: "string \<Rightarrow> string list \<Rightarrow> string" where
  "join sep [] = []"
| "join sep [x] = x"
| "join sep (x # y # ys) = x @ sep @ join sep (y # ys)"

section \<open>Fingerprints\<close>

definition getFingerprint :: "listing \<Rightarrow> string" where
  "getFingerprint l =
     (let t = trim (replaceSpaces '' '' False (toLowerCase (title l)));
          p = trim (replaceSpaces [] False (price l))
      in t @ ''|'' @ p)"

section \<open>Configuration\<close>

text \<open>\<^verbatim>\<open>process.env\<close> is a map; a variable is falsy when it is unset or empty.\<close>

type_synonym env = "string \<rightharpoonup> string"

definition truthy :: "string option \<Rightarrow> bool" where
  "truthy v = (case v of None \<Rightarrow> False | Some s \<Rightarrow> s \<noteq> [])"

definition REQUIRED_ENV_VARS :: "string list" where
  "REQUIRED_ENV_VARS =
     [''UPSTASH_REDIS_REST_URL'', ''UPSTASH_REDIS_REST_TOKEN'',
      ''TELEGRAM_BOT_TOKEN'', ''TELEGRAM_CHAT_ID'']"

definition validateEnv :: "env \<Rightarrow> error + unit" where
  "validateEnv e =
     (let missing = filter (\<lambda>key. \<not> truthy (e key)) REQUIRED_ENV_VARS in
      if length missing > 0
      then Inl (Error (''Missing required environment variables: '' @ join '', '' missing))
      else if \<not> truthy (e ''NJUSKALO_URLS'') \<and> \<not> truthy (e ''INDEX_HR_URLS'')
                \<and> \<not> truthy (e ''OGLASNIK_HR_URLS'')
      then Inl (Error
        ''At least one of NJUSKALO_URLS, INDEX_HR_URLS, or OGLASNIK_HR_URLS must be set'')
      else Inr ())"

text \<open>One source-address list: split, trim every piece, drop the empty ones.\<close>

definition urlsOf :: "string option \<Rightarrow> string list" where
  "urlsOf v =
     (case v of None \<Rightarrow> []
      | Some s \<Rightarrow> if s = [] then []
                  else filter (\<lambda>u. u \<noteq> []) (map trim (splitBars [] s)))"

definition collectUrls :: "env \<Rightarrow> string list" where
  "collectUrls e =
     urlsOf (e ''NJUSKALO_URLS'') @ urlsOf (e ''INDEX_HR_URLS'') @ urlsOf (e ''OGLASNIK_HR_URLS'')"

section \<open>The outside world\<close>

text \<open>
  What the program does to the outside is recorded, in order, in a trace of events:
  browser attempts, delays, the commands sent to the store, the messages handed to the
  notification transport and what the handlers write with \<^verbatim>\<open>console.error\<close>. Messages and
  logged errors are kept as tagged values; their rendering as text is not modelled, and
  the informational \<^verbatim>\<open>console.log\<close> lines are left out.
\<close>

datatype msg =
    NewListing listing
  | Summary nat
  | Initialized nat nat
  | ZeroListings
  | ScrapeFailed string

text \<open>
  What a handler writes with \<^verbatim>\<open>console.error\<close>: the attempt of the scraper that failed and
  why, the listing whose notification failed and why, the fatal error of the run, and the
  failure of the error notification itself.
\<close>

datatype logged =
    AttemptFailed nat string
  | NotificationFailed string string
  | FatalError string
  | ErrorNotificationFailed string

datatype event =
    Goto string nat
  | Delay nat
  | Exists string
  | SMembers string
  | SAdd string "string list"
  | Expire string nat
  | Send msg
  | ConsoleError logged

text \<open>
  The platform answers what the program cannot decide: \<open>hostname\<close> is
  \<^verbatim>\<open>new URL(url).hostname\<close> (\<open>None\<close> when the constructor throws), \<open>adapter k u\<close> is
  the outcome of the \<open>k\<close>-th browser attempt of the run, on address \<open>u\<close> (navigation
  and extraction: the listings, or the message of what was thrown), and \<open>transport k m\<close>
  is the outcome of the \<open>k\<close>-th send of the run (\<open>None\<close> when the request succeeds,
  otherwise the message of the error \<^verbatim>\<open>sendTelegramMessage\<close> throws). The store client
  and the browser launch are taken to succeed, and the client is taken to return the
  members of a set as the strings that were added.
\<close>

record platform =
  hostname :: "string \<Rightarrow> string option"
  adapter :: "nat \<Rightarrow> string \<Rightarrow> string + listing list"
  transport :: "nat \<Rightarrow> msg \<Rightarrow> string option"

record redis_set =
  members :: "string set"
  ttl :: "nat option"

record world =
  redis :: "string \<rightharpoonup> redis_set"
  trace :: "event list"
  attempts :: nat
  sends :: nat

definition emit :: "event \<Rightarrow> world \<Rightarrow> world" where
  "emit ev w = w\<lparr>trace := trace w @ [ev]\<rparr>"

definition delay :: "nat \<Rightarrow> world \<Rightarrow> world" where
  "delay ms w = emit (Delay ms) w"

definition consoleError :: "logged \<Rightarrow> world \<Rightarrow> world" where
  "consoleError s w = emit (ConsoleError s) w"

section \<open>Seen-state store\<close>

definition REDIS_KEY :: string where
  "REDIS_KEY = ''njuskalo:seen_ids''"

definition FINGERPRINT_KEY :: string where
  "FINGERPRINT_KEY = ''seen:fingerprints''"

definition TTL_SECONDS :: nat where
  "TTL_SECONDS = 30 * 24 * 60 * 60"

text \<open>The commands of the store: a key exists exactly when it holds a set.\<close>

definition smembers :: "string \<Rightarrow> world \<Rightarrow> string set \<times> world" where
  "smembers key w =
     ((case redis w key of None \<Rightarrow> {} | Some s \<Rightarrow> members s), emit (SMembers key) w)"

definition sadd :: "string \<Rightarrow> string list \<Rightarrow> world \<Rightarrow> world" where
  "sadd key vs w =
     emit (SAdd key vs)
       (w\<lparr>redis := (redis w)(key \<mapsto>
          (case redis w key of
             None \<Rightarrow> \<lparr>members = set vs, ttl = None\<rparr>
           | Some s \<Rightarrow> s\<lparr>members := members s \<union> set vs\<rparr>))\<rparr>)"

definition expire :: "string \<Rightarrow> nat \<Rightarrow> world \<Rightarrow> world" where
  "expire key secs w =
     emit (Expire key secs)
       (case redis w key of
          None \<Rightarrow> w
        | Some s \<Rightarrow> w\<lparr>redis := (redis w)(key \<mapsto> s\<lparr>ttl := Some secs\<rparr>)\<rparr>)"

definition exists_key :: "string \<Rightarrow> world \<Rightarrow> bool \<times> world" where
  "exists_key key w = (redis w key \<noteq> None, emit (Exists key) w)"

definition getSeenIds :: "world \<Rightarrow> string set \<times> world" where
  "getSeenIds w = smembers REDIS_KEY w"

definition addSeenIds :: "string list \<Rightarrow> world \<Rightarrow> world" where
  "addSeenIds ids w =
     (if length ids = 0 then w else expire REDIS_KEY TTL_SECONDS (sadd REDIS_KEY ids w))"

definition hasSeenIds :: "world \<Rightarrow> bool \<times> world" where
  "hasSeenIds w = exists_key REDIS_KEY w"

definition getSeenFingerprints :: "world \<Rightarrow> string set \<times> world" where
  "getSeenFingerprints w = smembers FINGERPRINT_KEY w"

definition addSeenFingerprints :: "string list \<Rightarrow> world \<Rightarrow> world" where
  "addSeenFingerprints fingerprints w =
     (if length fingerprints = 0 then w
      else expire FINGERPRINT_KEY TTL_SECONDS (sadd FINGERPRINT_KEY fingerprints w))"

section \<open>Notifier\<close>

definition sendTelegramMessage :: "platform \<Rightarrow> msg \<Rightarrow> world \<Rightarrow> (error + unit) \<times> world" where
  "sendTelegramMessage P m w =
     (let w1 = emit (Send m) (w\<lparr>sends := Suc (sends w)\<rparr>) in
      case transport P (sends w) m of
        None \<Rightarrow> (Inr (), w1)
      | Some e \<Rightarrow> (Inl (Error e), w1))"

definition notifyNewListing :: "platform \<Rightarrow> listing \<Rightarrow> world \<Rightarrow> (error + unit) \<times> world" where
  "notifyNewListing P l w = sendTelegramMessage P (NewListing l) w"

text \<open>The \<^verbatim>\<open>for\<close> loop of \<^verbatim>\<open>notifyNewListings\<close>, with its \<^verbatim>\<open>try\<close>/\<^verbatim>\<open>catch\<close>.\<close>

fun notifyEach :: "platform \<Rightarrow> listing list \<Rightarrow> world \<Rightarrow> world" where
  "notifyEach P [] w = w"
| "notifyEach P (l # ls) w =
     (case notifyNewListing P l w of
        (Inr _, w1) \<Rightarrow> notifyEach P ls (delay 500 w1)
      | (Inl err, w1) \<Rightarrow>
          notifyEach P ls
            (consoleError (NotificationFailed (listing_id l) (message err)) w1))"

definition notifyNewListings :: "platform \<Rightarrow> listing list \<Rightarrow> world \<Rightarrow> (error + unit) \<times> world" where
  "notifyNewListings P listings w =
     (if length listings \<ge> 5 then
        (case sendTelegramMessage P (Summary (length listings)) w of
           (Inl err, w1) \<Rightarrow> (Inl err, w1)
         | (Inr _, w1) \<Rightarrow> (Inr (), notifyEach P listings (delay 500 w1)))
      else (Inr (), notifyEach P listings w))"

definition escapeHtml :: "string \<Rightarrow> string" where
  "escapeHtml text =
     concat (map (\<lambda>c. if c = CHR ''&'' then ''&amp;''
                        else if c = CHR ''<'' then ''&lt;''
                        else if c = CHR ''>'' then ''&gt;'' else [c]) text)"

definition notifyError :: "platform \<Rightarrow> string \<Rightarrow> world \<Rightarrow> world" where
  "notifyError P errorMessage w =
     (case sendTelegramMessage P (ScrapeFailed (escapeHtml errorMessage)) w of
        (Inr _, w1) \<Rightarrow> w1
      | (Inl err, w1) \<Rightarrow>
          consoleError (ErrorNotificationFailed (message err)) w1)"

definition notifyInitialized :: "platform \<Rightarrow> nat \<Rightarrow> nat \<Rightarrow> world \<Rightarrow> (error + unit) \<times> world" where
  "notifyInitialized P listingCount urlCount w =
     sendTelegramMessage P (Initialized listingCount urlCount) w"

definition notifyZeroListings :: "platform \<Rightarrow> world \<Rightarrow> (error + unit) \<times> world" where
  "notifyZeroListings P w = sendTelegramMessage P ZeroListings w"

section \<open>Scraper: the retry loop\<close>

definition RETRY_DELAY :: nat where
  "RETRY_DELAY = 10000"

definition supportedSite :: "string \<Rightarrow> bool" where
  "supportedSite domain =
     (includes_str domain ''njuskalo.hr'' \<or> includes_str domain ''index.hr''
      \<or> includes_str domain ''oglasnik.hr'' \<or> includes_str domain ''nekretnine.hr'')"

text \<open>
  The loop \<^verbatim>\<open>for (let attempt = 1; attempt <= 2; attempt++)\<close> and the \<^verbatim>\<open>throw\<close> after it.
  \<open>lastError\<close> is \<open>None\<close> while the variable is still \<^verbatim>\<open>undefined\<close>.
\<close>

function scrapeAttempts ::
  "platform \<Rightarrow> string \<Rightarrow> nat \<Rightarrow> string option \<Rightarrow> world \<Rightarrow> (error + listing list) \<times> world" where
  "scrapeAttempts P u attempt lastError w =
     (if attempt \<le> 2 then
        (let w1 = emit (Goto u attempt) (w\<lparr>attempts := Suc (attempts w)\<rparr>) in
         case adapter P (attempts w) u of
           Inr listings \<Rightarrow> (Inr listings, w1)
         | Inl err \<Rightarrow>
             (let w2 = consoleError (AttemptFailed attempt err) w1;
                  w3 = (if attempt < 2 then delay RETRY_DELAY w2 else w2)
              in scrapeAttempts P u (Suc attempt) (Some err) w3))
      else
        (Inl (Error (''Failed to scrape '' @ u @ '' after 2 attempts: ''
                       @ (case lastError of None \<Rightarrow> ''undefined'' | Some m \<Rightarrow> m))), w))"
  by pat_completeness auto
termination
  by (relation "measure (\<lambda>(P, u, attempt, lastError, w). 3 - attempt)") auto

definition scrapeListings :: "platform \<Rightarrow> string \<Rightarrow> world \<Rightarrow> (error + listing list) \<times> world" where
  "scrapeListings P u w =
     (case hostname P u of
        None \<Rightarrow> (Inl (Error ''Invalid URL''), w)
      | Some domain \<Rightarrow>
          if supportedSite domain then scrapeAttempts P u 1 None w
          else (Inl (Error (''Unsupported site: '' @ domain)), w))"

section \<open>Run controller\<close>

text \<open>
  \<^verbatim>\<open>allListingsMap\<close> is kept as the list of its values in insertion order: a listing is
  added only when no listing with its id is there yet.
\<close>

fun addListings :: "listing list \<Rightarrow> listing list \<Rightarrow> listing list" where
  "addListings acc [] = acc"
| "addListings acc (l # ls) =
     addListings (if listing_id l \<in> set (map listing_id acc) then acc else acc @ [l]) ls"

fun scrapeAll :: "platform \<Rightarrow> string list \<Rightarrow> listing list \<Rightarrow> world \<Rightarrow> (error + listing list) \<times> world" where
  "scrapeAll P [] acc w = (Inr acc, w)"
| "scrapeAll P (u # us) acc w =
     (case scrapeListings P u w of
        (Inl err, w1) \<Rightarrow> (Inl err, w1)
      | (Inr listings, w1) \<Rightarrow> scrapeAll P us (addListings acc listings) w1)"

text \<open>
  The loop of lines 120 to 126: \<open>classify seenFps ls (genuinelyNew, reposts)\<close> pushes every
  listing of \<open>ls\<close> onto one of the two lists.
\<close>

fun classify :: "string set \<Rightarrow> listing list \<Rightarrow> listing list \<times> listing list \<Rightarrow> listing list \<times> listing list" where
  "classify seenFps [] (genuinelyNew, reposts) = (genuinelyNew, reposts)"
| "classify seenFps (l # ls) (genuinelyNew, reposts) =
     (if getFingerprint l \<in> seenFps then classify seenFps ls (genuinelyNew, reposts @ [l])
      else classify seenFps ls (genuinelyNew @ [l], reposts))"

text \<open>The first-run branch, lines 97 to 104.\<close>

definition firstRun :: "platform \<Rightarrow> nat \<Rightarrow> listing list \<Rightarrow> world \<Rightarrow> (error + unit) \<times> world" where
  "firstRun P urlCount allListings w =
     (let ids = map listing_id allListings;
          w1 = addSeenIds ids w;
          w2 = addSeenFingerprints (map getFingerprint allListings) w1
      in notifyInitialized P (length allListings) urlCount w2)"

text \<open>The comparison, lines 106 to 145.\<close>

definition compareRun :: "platform \<Rightarrow> listing list \<Rightarrow> world \<Rightarrow> (error + unit) \<times> world" where
  "compareRun P allListings w =
     (let (seenIds, w1) = getSeenIds w;
          (seenFps, w2) = getSeenFingerprints w1;
          newByIdListings = filter (\<lambda>l. listing_id l \<notin> seenIds) allListings;
          (r, w3) =
            (if length newByIdListings = 0 then (Inr (), w2)
             else
               (let (genuinelyNew, reposts) = classify seenFps newByIdListings ([], []);
                    w3 = addSeenIds (map listing_id newByIdListings) w2
                in if length genuinelyNew > 0 then notifyNewListings P genuinelyNew w3
                   else (Inr (), w3)))
      in case r of
           Inl err \<Rightarrow> (Inl err, w3)
         | Inr _ \<Rightarrow> (Inr (), addSeenFingerprints (map getFingerprint allListings) w3))"

definition main :: "platform \<Rightarrow> env \<Rightarrow> world \<Rightarrow> (error + unit) \<times> world" where
  "main P e w =
     (case validateEnv e of
        Inl err \<Rightarrow> (Inl err, w)
      | Inr _ \<Rightarrow>
          (let urls = collectUrls e in
           case scrapeAll P urls [] w of
             (Inl err, w1) \<Rightarrow> (Inl err, w1)
           | (Inr allListings, w1) \<Rightarrow>
               if length allListings = 0 then notifyZeroListings P w1
               else
                 (let (seen, w2) = hasSeenIds w1 in
                  if \<not> seen then firstRun P (length urls) allListings w2
                  else compareRun P allListings w2)))"

text \<open>
  The top level, \<^verbatim>\<open>main().catch(...)\<close>: the exit code of the process and the world it
  leaves.
\<close>

definition run :: "platform \<Rightarrow> env \<Rightarrow> world \<Rightarrow> nat \<times> world" where
  "run P e w =
     (case main P e w of
        (Inr _, w1) \<Rightarrow> (0, w1)
      | (Inl err, w1) \<Rightarrow>
          (1, notifyError P (message err) (consoleError (FatalError (message err)) w1)))"

section \<open>Observations on worlds and traces\<close>

text \<open>The members of the two persisted sets; a key that does not exist holds no member.\<close>

definition persistedIds :: "world \<Rightarrow> string set" where
  "persistedIds w = (case redis w REDIS_KEY of None \<Rightarrow> {} | Some s \<Rightarrow> members s)"

definition persistedFingerprints :: "world \<Rightarrow> string set" where
  "persistedFingerprints w =
     (case redis w FINGERPRINT_KEY of None \<Rightarrow> {} | Some s \<Rightarrow> members s)"

text \<open>The events a run has added to the trace of the world it started from.\<close>

definition newEvents :: "world \<Rightarrow> world \<Rightarrow> event list" where
  "newEvents w w' = drop (length (trace w)) (trace w')"

fun isSend :: "event \<Rightarrow> bool" where
  "isSend (Send m) = True"
| "isSend ev = False"

fun isGoto :: "event \<Rightarrow> bool" where
  "isGoto (Goto u n) = True"
| "isGoto ev = False"

fun isDelay :: "event \<Rightarrow> bool" where
  "isDelay (Delay ms) = True"
| "isDelay ev = False"

text \<open>Events of the fetch phase: browser attempts, their logged failures, the retry delay.\<close>

fun isFetchEvent :: "event \<Rightarrow> bool" where
  "isFetchEvent (Goto u n) = True"
| "isFetchEvent (Delay ms) = True"
| "isFetchEvent (ConsoleError s) = True"
| "isFetchEvent ev = False"

text \<open>Any command sent to the store, and the writes among them.\<close>

fun isStoreEvent :: "event \<Rightarrow> bool" where
  "isStoreEvent (Exists key) = True"
| "isStoreEvent (SMembers key) = True"
| "isStoreEvent (SAdd key vs) = True"
| "isStoreEvent (Expire key secs) = True"
| "isStoreEvent ev = False"

fun writesKey :: "string \<Rightarrow> event \<Rightarrow> bool" where
  "writesKey k (SAdd key vs) = (key = k)"
| "writesKey k (Expire key secs) = (key = k)"
| "writesKey k ev = False"

text \<open>The messages of the dispatcher: the summary and the per-listing messages.\<close>

fun isDispatch :: "msg \<Rightarrow> bool" where
  "isDispatch (NewListing l) = True"
| "isDispatch (Summary n) = True"
| "isDispatch m = False"

text \<open>
  The pacing as the specification words it: a delay stands only between two listing
  messages, that is, right after one and right before the next. The flag says that the
  previous event was a listing message.
\<close>

fun isListingSend :: "event \<Rightarrow> bool" where
  "isListingSend (Send m) = (case m of NewListing l \<Rightarrow> True | _ \<Rightarrow> False)"
| "isListingSend ev = False"

fun delaysOnlyBetweenListings :: "bool \<Rightarrow> event list \<Rightarrow> bool" where
  "delaysOnlyBetweenListings afterListing [] = True"
| "delaysOnlyBetweenListings afterListing (ev # evs) =
     ((if isDelay ev
       then afterListing \<and> (case evs of [] \<Rightarrow> False | nxt # rest \<Rightarrow> isListingSend nxt)
       else True)
      \<and> delaysOnlyBetweenListings (isListingSend ev) evs)"

text \<open>
  What a sequence of events does to a store, command by command: \<^verbatim>\<open>SADD\<close> creates the set
  or adds to it, \<^verbatim>\<open>EXPIRE\<close> sets the time to live of a key that exists, and every other
  event leaves the store as it is. The store at a point of a run is the store the run
  started from after the events up to that point.
\<close>

fun storeAfter :: "event list \<Rightarrow> (string \<rightharpoonup> redis_set) \<Rightarrow> (string \<rightharpoonup> redis_set)" where
  "storeAfter [] db = db"
| "storeAfter (SAdd key vs # evs) db =
     storeAfter evs
       (db(key \<mapsto> (case db key of
                      None \<Rightarrow> \<lparr>members = set vs, ttl = None\<rparr>
                    | Some s \<Rightarrow> s\<lparr>members := members s \<union> set vs\<rparr>)))"
| "storeAfter (Expire key secs # evs) db =
     storeAfter evs (case db key of None \<Rightarrow> db | Some s \<Rightarrow> db(key \<mapsto> s\<lparr>ttl := Some secs\<rparr>))"
| "storeAfter (ev # evs) db = storeAfter evs db"

text \<open>The members of the identity set in a store.\<close>

definition identityMembers :: "(string \<rightharpoonup> redis_set) \<Rightarrow> string set" where
  "identityMembers db = (case db REDIS_KEY of None \<Rightarrow> {} | Some s \<Rightarrow> members s)"

text \<open>The ids that the events of a trace add to the identity set.\<close>

fun idsWritten :: "event list \<Rightarrow> string set" where
  "idsWritten [] = {}"
| "idsWritten (SAdd key vs # evs) = (if key = REDIS_KEY then set vs else {}) \<union> idsWritten evs"
| "idsWritten (ev # evs) = idsWritten evs"

section \<open>Concrete runs\<close>

text \<open>
  The listings of \<^verbatim>\<open>src/test-dedup.ts\<close> (titles in ASCII): 1001 is known by id, 9999 has
  the title and price of the known 1002, 2001 is new.
\<close>

definition scraped1001 :: listing where
  "scraped1001 = \<lparr>listing_id = ''1001'', title = ''zapresic, kuca, 95 m2'',
     price = ''200.000 EUR'', url = ''https://www.njuskalo.hr/nekretnine/1001'',
     location = None, imageUrl = None\<rparr>"

definition scraped9999 :: listing where
  "scraped9999 = \<lparr>listing_id = ''9999'', title = ''sveta nedelja, kuca, 150 m2'',
     price = ''300.000 EUR'', url = ''https://www.njuskalo.hr/nekretnine/9999'',
     location = Some ''Sveta Nedelja'', imageUrl = None\<rparr>"

definition scraped2001 :: listing where
  "scraped2001 = \<lparr>listing_id = ''2001'', title = ''bregana, kuca, 200 m2'',
     price = ''250.000 EUR'', url = ''https://www.njuskalo.hr/nekretnine/2001'',
     location = None, imageUrl = None\<rparr>"

definition scrapedListings :: "listing list" where
  "scrapedListings = [scraped1001, scraped9999, scraped2001]"

text \<open>Six listings, none of them known by id or by fingerprint.\<close>

definition plot :: "string \<Rightarrow> listing" where
  "plot n = \<lparr>listing_id = ''30'' @ n, title = ''zemljiste '' @ n, price = ''50.000 EUR'',
     url = ''https://www.njuskalo.hr/nekretnine/30'' @ n, location = None, imageUrl = None\<rparr>"

definition sixListings :: "listing list" where
  "sixListings = map plot [''01'', ''02'', ''03'', ''04'', ''05'', ''06'']"

definition envOk :: env where
  "envOk = [''UPSTASH_REDIS_REST_URL'' \<mapsto> ''https://r'', ''UPSTASH_REDIS_REST_TOKEN'' \<mapsto> ''t'',
            ''TELEGRAM_BOT_TOKEN'' \<mapsto> ''b'', ''TELEGRAM_CHAT_ID'' \<mapsto> ''42'',
            ''NJUSKALO_URLS'' \<mapsto> ''https://www.njuskalo.hr/x'']"

text \<open>The same with a source list that holds only the separator.\<close>

definition envBars :: env where
  "envBars = envOk(''NJUSKALO_URLS'' \<mapsto> ''|||'')"

text \<open>The same without the chat id.\<close>

definition envNoChat :: env where
  "envNoChat = envOk(''TELEGRAM_CHAT_ID'' := None)"

text \<open>
  Platforms: every browser attempt returns \<open>ls\<close>, or every attempt fails; every send
  succeeds, or the first send of the run fails.
\<close>

definition sendsOk :: "nat \<Rightarrow> msg \<Rightarrow> string option" where
  "sendsOk k m = None"

definition firstSendFails :: "nat \<Rightarrow> msg \<Rightarrow> string option" where
  "firstSendFails k m = (if k = 0 then Some ''Telegram API error 429: Too Many Requests'' else None)"

definition secondSendFails :: "nat \<Rightarrow> msg \<Rightarrow> string option" where
  "secondSendFails k m = (if k = 1 then Some ''Telegram API error 429: Too Many Requests'' else None)"

definition site :: "(nat \<Rightarrow> string \<Rightarrow> string + listing list) \<Rightarrow> (nat \<Rightarrow> msg \<Rightarrow> string option) \<Rightarrow> platform" where
  "site a t = \<lparr>hostname = (\<lambda>u. Some ''www.njuskalo.hr''), adapter = a, transport = t\<rparr>"

definition returns :: "listing list \<Rightarrow> nat \<Rightarrow> string \<Rightarrow> string + listing list" where
  "returns ls k u = Inr ls"

definition timesOut :: "nat \<Rightarrow> string \<Rightarrow> string + listing list" where
  "timesOut k u = Inl ''Timeout 60000ms exceeded''"

text \<open>Worlds: nothing persisted yet, and the state the test seeds.\<close>

definition emptyWorld :: world where
  "emptyWorld = \<lparr>redis = Map.empty, trace = [], attempts = 0, sends = 0\<rparr>"

definition seededWorld :: world where
  "seededWorld =
     \<lparr>redis = [REDIS_KEY \<mapsto> \<lparr>members = {''1001'', ''1002''}, ttl = Some TTL_SECONDS\<rparr>,
               FINGERPRINT_KEY \<mapsto> \<lparr>members = {''zapresic, kuca, 95 m2|200.000EUR'',
                                               ''sveta nedelja, kuca, 150 m2|300.000EUR''},
                                    ttl = Some TTL_SECONDS\<rparr>],
      trace = [], attempts = 0, sends = 0\<rparr>"

section \<open>Basic facts\<close>

declare scrapeAttempts.simps [simp del]

lemma emit_simps [simp]:
  "trace (emit ev w) = trace w @ [ev]" "redis (emit ev w) = redis w"
  "attempts (emit ev w) = attempts w" "sends (emit ev w) = sends w"
  by (simp_all add: emit_def)

lemma keys_differ [simp]: "REDIS_KEY \<noteq> FINGERPRINT_KEY" "FINGERPRINT_KEY \<noteq> REDIS_KEY"
  by (simp_all add: REDIS_KEY_def FINGERPRINT_KEY_def)

lemma fingerprints_scraped [simp]:
  "getFingerprint scraped1001 = ''zapresic, kuca, 95 m2|200.000EUR''"
  "getFingerprint scraped9999 = ''sveta nedelja, kuca, 150 m2|300.000EUR''"
  "getFingerprint scraped2001 = ''bregana, kuca, 200 m2|250.000EUR''"
  by (simp_all add: getFingerprint_def scraped1001_def scraped9999_def scraped2001_def
        toLowerCase_def toLowerChar_def trim_def isSpace_def)

lemma ids_scraped [simp]:
  "listing_id scraped1001 = ''1001''" "listing_id scraped9999 = ''9999''"
  "listing_id scraped2001 = ''2001''"
  by (simp_all add: scraped1001_def scraped9999_def scraped2001_def)

lemma persisted_seededWorld [simp]:
  "persistedIds seededWorld = {''1001'', ''1002''}"
  "persistedFingerprints seededWorld =
     {''zapresic, kuca, 95 m2|200.000EUR'', ''sveta nedelja, kuca, 150 m2|300.000EUR''}"
  by (simp_all add: persistedIds_def persistedFingerprints_def seededWorld_def)

section \<open>Classification\<close>

lemma classify_filter:
  "classify F ls (g, r) =
     (g @ filter (\<lambda>l. getFingerprint l \<notin> F) ls, r @ filter (\<lambda>l. getFingerprint l \<in> F) ls)"
  by (induction ls arbitrary: g r) auto

lemma getSeenIds_eq: "getSeenIds w = (persistedIds w, emit (SMembers REDIS_KEY) w)"
  by (simp add: getSeenIds_def smembers_def persistedIds_def)

lemma getSeenFingerprints_eq:
  "getSeenFingerprints w = (persistedFingerprints w, emit (SMembers FINGERPRINT_KEY) w)"
  by (simp add: getSeenFingerprints_def smembers_def persistedFingerprints_def)

lemma persisted_emit [simp]:
  "persistedIds (emit ev w) = persistedIds w"
  "persistedFingerprints (emit ev w) = persistedFingerprints w"
  by (simp_all add: persistedIds_def persistedFingerprints_def)

section \<open>Validation\<close>

lemma validateEnv_ok_iff:
  "(validateEnv e = Inr ()) =
     ((\<forall>key \<in> set REQUIRED_ENV_VARS. truthy (e key))
      \<and> (truthy (e ''NJUSKALO_URLS'') \<or> truthy (e ''INDEX_HR_URLS'')
           \<or> truthy (e ''OGLASNIK_HR_URLS'')))"
  by (auto simp: validateEnv_def Let_def filter_empty_conv)

lemma validate_envOk [simp]: "validateEnv envOk = Inr ()"
  by (simp add: validateEnv_def envOk_def REQUIRED_ENV_VARS_def truthy_def)

lemma validate_envBars [simp]: "validateEnv envBars = Inr ()"
  by (simp add: validateEnv_def envOk_def envBars_def REQUIRED_ENV_VARS_def truthy_def)

lemma validate_envNoChat [simp]:
  "validateEnv envNoChat = Inl (Error ''Missing required environment variables: TELEGRAM_CHAT_ID'')"
  by (simp add: validateEnv_def envOk_def envNoChat_def REQUIRED_ENV_VARS_def truthy_def)

lemma collect_envOk [simp]: "collectUrls envOk = [''https://www.njuskalo.hr/x'']"
  by (simp add: collectUrls_def urlsOf_def envOk_def trim_def isSpace_def)

lemma collect_envBars [simp]: "collectUrls envBars = []"
  by (simp add: collectUrls_def urlsOf_def envOk_def envBars_def trim_def isSpace_def)

lemma sendTelegramMessage_eq:
  "sendTelegramMessage P m w =
     ((case transport P (sends w) m of None \<Rightarrow> Inr () | Some err \<Rightarrow> Inl (Error err)),
      w\<lparr>sends := Suc (sends w), trace := trace w @ [Send m]\<rparr>)"
  by (simp add: sendTelegramMessage_def emit_def split: option.split)

text \<open>
  C9, as stated, fails: with every credential set and a source list that holds only the
  separator, no address is left after parsing, yet validation passes and the run goes on
  to the zero-listings warning and ends with exit code 0.
\<close>

theorem validation_counterexample:
  "validateEnv envBars = Inr () \<and> collectUrls envBars = []
   \<and> run (site timesOut sendsOk) envBars emptyWorld
       = (0, emptyWorld\<lparr>sends := 1, trace := [Send ZeroListings]\<rparr>)"
  by (simp add: run_def main_def notifyZeroListings_def sendTelegramMessage_eq site_def
        sendsOk_def emptyWorld_def)

lemma newEvents_append [simp]: "trace w' = trace w @ evs \<Longrightarrow> newEvents w w' = evs"
  by (simp add: newEvents_def)

lemma notifyError_eq:
  "notifyError P m w =
     (case transport P (sends w) (ScrapeFailed (escapeHtml m)) of
        None \<Rightarrow> w\<lparr>sends := Suc (sends w), trace := trace w @ [Send (ScrapeFailed (escapeHtml m))]\<rparr>
      | Some err \<Rightarrow>
          w\<lparr>sends := Suc (sends w),
            trace := trace w @ [Send (ScrapeFailed (escapeHtml m)),
              ConsoleError (ErrorNotificationFailed err)]\<rparr>)"
  by (simp add: notifyError_def sendTelegramMessage_eq consoleError_def emit_def
      split: option.split)

lemma run_failed:
  assumes "main P e w = (Inl err, w1)"
  shows "fst (run P e w) = 1"
    and "redis (snd (run P e w)) = redis w1"
    and "attempts (snd (run P e w)) = attempts w1"
    and "\<exists>evs. trace (snd (run P e w)) = trace w1 @ evs
               \<and> (\<forall>ev \<in> set evs. \<not> isStoreEvent ev \<and> (\<forall>u n. ev \<noteq> Goto u n))"
  using assms
  by (auto simp: run_def notifyError_eq consoleError_def split: option.split)

text \<open>
  C9, amended. Validation fails exactly when a required credential is unset or empty, or
  when all three source-list variables are unset or empty (what the lists hold after
  parsing plays no part). When it fails, \<^verbatim>\<open>main\<close> throws with the world untouched, and the
  whole run ends with exit code 1 without any browser attempt and without any command to
  the store.
\<close>

theorem validation_fatal:
  "(\<exists>err. validateEnv e = Inl err) =
     ((\<exists>key \<in> set REQUIRED_ENV_VARS. \<not> truthy (e key))
      \<or> (\<not> truthy (e ''NJUSKALO_URLS'') \<and> \<not> truthy (e ''INDEX_HR_URLS'')
           \<and> \<not> truthy (e ''OGLASNIK_HR_URLS'')))
   \<and> (\<forall>err. validateEnv e = Inl err \<longrightarrow>
         main P e w = (Inl err, w)
         \<and> fst (run P e w) = 1
         \<and> redis (snd (run P e w)) = redis w
         \<and> attempts (snd (run P e w)) = attempts w
         \<and> (\<forall>ev \<in> set (newEvents w (snd (run P e w))).
               \<not> isStoreEvent ev \<and> (\<forall>u n. ev \<noteq> Goto u n)))"
proof -
  have iff: "(\<exists>err. validateEnv e = Inl err) = (validateEnv e \<noteq> Inr ())"
    by (cases "validateEnv e") auto
  have a: "(\<exists>err. validateEnv e = Inl err) =
     ((\<exists>key \<in> set REQUIRED_ENV_VARS. \<not> truthy (e key))
      \<or> (\<not> truthy (e ''NJUSKALO_URLS'') \<and> \<not> truthy (e ''INDEX_HR_URLS'')
           \<and> \<not> truthy (e ''OGLASNIK_HR_URLS'')))"
    unfolding iff validateEnv_ok_iff by blast
  have b: "main P e w = (Inl err, w)
         \<and> fst (run P e w) = 1
         \<and> redis (snd (run P e w)) = redis w
         \<and> attempts (snd (run P e w)) = attempts w
         \<and> (\<forall>ev \<in> set (newEvents w (snd (run P e w))).
               \<not> isStoreEvent ev \<and> (\<forall>u n. ev \<noteq> Goto u n))"
    if v: "validateEnv e = Inl err" for err
  proof -
    have m: "main P e w = (Inl err, w)"
      using v by (simp add: main_def)
    obtain evs where t: "trace (snd (run P e w)) = trace w @ evs"
      and n: "\<forall>ev \<in> set evs. \<not> isStoreEvent ev \<and> (\<forall>u n. ev \<noteq> Goto u n)"
      using run_failed(4) [OF m] by blast
    show ?thesis
      using m run_failed(1-3) [OF m] n newEvents_append [OF t] by simp
  qed
  show ?thesis
    using a b by blast
qed

theorem validation_fatal_witness:
  "main (site (returns scrapedListings) sendsOk) envNoChat seededWorld
     = (Inl (Error ''Missing required environment variables: TELEGRAM_CHAT_ID''), seededWorld)
   \<and> fst (run (site (returns scrapedListings) sendsOk) envNoChat seededWorld) = 1
   \<and> redis (snd (run (site (returns scrapedListings) sendsOk) envNoChat seededWorld))
       = redis seededWorld"
  using validation_fatal [of envNoChat "site (returns scrapedListings) sendsOk" seededWorld]
  by simp

section \<open>The retry loop\<close>

lemma scrapeAttempts_unrolled:
  "scrapeAttempts P u (Suc 0) None w =
     (case adapter P (attempts w) u of
        Inr ls \<Rightarrow> (Inr ls, w\<lparr>attempts := attempts w + 1, trace := trace w @ [Goto u 1]\<rparr>)
      | Inl e1 \<Rightarrow>
          (case adapter P (attempts w + 1) u of
             Inr ls \<Rightarrow>
               (Inr ls, w\<lparr>attempts := attempts w + 2,
                  trace := trace w @ [Goto u 1, ConsoleError (AttemptFailed 1 e1),
                                      Delay 10000, Goto u 2]\<rparr>)
           | Inl e2 \<Rightarrow>
               (Inl (Error (''Failed to scrape '' @ u @ '' after 2 attempts: '' @ e2)),
                w\<lparr>attempts := attempts w + 2,
                  trace := trace w @ [Goto u 1, ConsoleError (AttemptFailed 1 e1),
                                      Delay 10000, Goto u 2,
                                      ConsoleError (AttemptFailed 2 e2)]\<rparr>)))"
  by (simp add: scrapeAttempts.simps [of P u 1] scrapeAttempts.simps [of P u 2]
      scrapeAttempts.simps [of P u 3] scrapeAttempts.simps [of P u "Suc (Suc 0)"]
      scrapeAttempts.simps [of P u "Suc (Suc (Suc 0))"] scrapeAttempts.simps [of P u "Suc 0"]
      consoleError_def delay_def emit_def RETRY_DELAY_def Let_def numeral_2_eq_2 numeral_3_eq_3
      split: sum.split)

text \<open>
  C7. For every address and every behaviour of the adapter: on an address whose host is
  not supported (or that does not parse) no attempt is made; otherwise a first attempt that
  succeeds is returned with nothing after it; when it fails, the failure is logged, the
  program waits 10000 ms and makes attempt 2; its result is returned when it succeeds,
  and when it fails too the error \<^verbatim>\<open>Failed to scrape <address> after 2 attempts: <last failure>\<close>
  is thrown. In every case at most two attempts are made.
\<close>

theorem fetch_retries_once:
  "scrapeListings P u w =
     (case hostname P u of
        None \<Rightarrow> (Inl (Error ''Invalid URL''), w)
      | Some domain \<Rightarrow>
          if \<not> supportedSite domain then (Inl (Error (''Unsupported site: '' @ domain)), w)
          else
            (case adapter P (attempts w) u of
               Inr ls \<Rightarrow> (Inr ls, w\<lparr>attempts := attempts w + 1, trace := trace w @ [Goto u 1]\<rparr>)
             | Inl e1 \<Rightarrow>
                 (case adapter P (attempts w + 1) u of
                    Inr ls \<Rightarrow>
                      (Inr ls, w\<lparr>attempts := attempts w + 2,
                         trace := trace w @ [Goto u 1, ConsoleError (AttemptFailed 1 e1),
                                             Delay 10000, Goto u 2]\<rparr>)
                  | Inl e2 \<Rightarrow>
                      (Inl (Error (''Failed to scrape '' @ u @ '' after 2 attempts: '' @ e2)),
                       w\<lparr>attempts := attempts w + 2,
                         trace := trace w @ [Goto u 1, ConsoleError (AttemptFailed 1 e1),
                                             Delay 10000, Goto u 2,
                                             ConsoleError (AttemptFailed 2 e2)]\<rparr>))))
   \<and> length (filter isGoto (newEvents w (snd (scrapeListings P u w)))) \<le> 2"
proof -
  have eq: "scrapeListings P u w =
     (case hostname P u of
        None \<Rightarrow> (Inl (Error ''Invalid URL''), w)
      | Some domain \<Rightarrow>
          if \<not> supportedSite domain then (Inl (Error (''Unsupported site: '' @ domain)), w)
          else
            (case adapter P (attempts w) u of
               Inr ls \<Rightarrow> (Inr ls, w\<lparr>attempts := attempts w + 1, trace := trace w @ [Goto u 1]\<rparr>)
             | Inl e1 \<Rightarrow>
                 (case adapter P (attempts w + 1) u of
                    Inr ls \<Rightarrow>
                      (Inr ls, w\<lparr>attempts := attempts w + 2,
                         trace := trace w @ [Goto u 1, ConsoleError (AttemptFailed 1 e1),
                                             Delay 10000, Goto u 2]\<rparr>)
                  | Inl e2 \<Rightarrow>
                      (Inl (Error (''Failed to scrape '' @ u @ '' after 2 attempts: '' @ e2)),
                       w\<lparr>attempts := attempts w + 2,
                         trace := trace w @ [Goto u 1, ConsoleError (AttemptFailed 1 e1),
                                             Delay 10000, Goto u 2,
                                             ConsoleError (AttemptFailed 2 e2)]\<rparr>))))"
    by (simp add: scrapeListings_def scrapeAttempts_unrolled split: option.split)
  have "length (filter isGoto (newEvents w (snd (scrapeListings P u w)))) \<le> 2"
    unfolding eq by (simp add: newEvents_def split: option.split sum.split)
  with eq show ?thesis by blast
qed

theorem fetch_retries_once_witness:
  "scrapeListings (site timesOut sendsOk) ''https://www.njuskalo.hr/x'' emptyWorld =
     (Inl (Error (''Failed to scrape https://www.njuskalo.hr/x after 2 attempts: ''
                  @ ''Timeout 60000ms exceeded'')),
      emptyWorld\<lparr>attempts := 2,
        trace := [Goto ''https://www.njuskalo.hr/x'' 1,
                  ConsoleError (AttemptFailed 1 ''Timeout 60000ms exceeded''), Delay 10000,
                  Goto ''https://www.njuskalo.hr/x'' 2,
                  ConsoleError (AttemptFailed 2 ''Timeout 60000ms exceeded'')]\<rparr>)"
  using fetch_retries_once [of "site timesOut sendsOk" "''https://www.njuskalo.hr/x''" emptyWorld]
  by (simp add: site_def timesOut_def supportedSite_def emptyWorld_def)

section \<open>Dispatch\<close>

lemma notifyEach_frame [simp]:
  "redis (notifyEach P ls w) = redis w" "attempts (notifyEach P ls w) = attempts w"
  "sends (notifyEach P ls w) = sends w + length ls"
  by (induction ls arbitrary: w)
     (simp_all add: notifyNewListing_def sendTelegramMessage_eq delay_def consoleError_def
        split: option.split)

lemma notifyEach_trace:
  "trace (notifyEach P ls w) = trace w @
     concat (map (\<lambda>(k, l). [Send (NewListing l),
                   case transport P k (NewListing l) of
                     None \<Rightarrow> Delay 500
                   | Some err \<Rightarrow> ConsoleError (NotificationFailed (listing_id l) err)])
                 (enumerate (sends w) ls))"
  by (induction ls arbitrary: w)
     (simp_all add: notifyNewListing_def sendTelegramMessage_eq delay_def consoleError_def
        split: option.split)

lemma sends_of_each:
  "filter isSend (concat (map (\<lambda>(k, l). [Send (NewListing l),
                   case transport P k (NewListing l) of
                     None \<Rightarrow> Delay 500
                   | Some err \<Rightarrow> ConsoleError (NotificationFailed (listing_id l) err)])
                 (enumerate n ls)))
   = map (\<lambda>l. Send (NewListing l)) ls"
  by (induction ls arbitrary: n) (simp_all split: option.split)

text \<open>Below five listings, and whenever the summary goes through, dispatch returns.\<close>

lemma notifyNewListings_short:
  "length ls < 5 \<Longrightarrow> notifyNewListings P ls w = (Inr (), notifyEach P ls w)"
  by (simp add: notifyNewListings_def)

lemma notifyNewListings_summary_ok:
  "5 \<le> length ls \<Longrightarrow> transport P (sends w) (Summary (length ls)) = None \<Longrightarrow>
   notifyNewListings P ls w =
     (Inr (), notifyEach P ls
        (w\<lparr>sends := Suc (sends w), trace := trace w @ [Send (Summary (length ls)), Delay 500]\<rparr>))"
  by (simp add: notifyNewListings_def sendTelegramMessage_eq delay_def emit_def)

lemma notifyNewListings_summary_fails:
  "5 \<le> length ls \<Longrightarrow> transport P (sends w) (Summary (length ls)) = Some err \<Longrightarrow>
   notifyNewListings P ls w =
     (Inl (Error err), w\<lparr>sends := Suc (sends w), trace := trace w @ [Send (Summary (length ls))]\<rparr>)"
  by (simp add: notifyNewListings_def sendTelegramMessage_eq)

lemma length_sixListings [simp]: "length sixListings = 6"
  by (simp add: sixListings_def)

text \<open>
  C5 fails on the code: with five listings or more the summary is sent outside the
  \<^verbatim>\<open>try\<close>, so a failure of that send leaves \<^verbatim>\<open>notifyNewListings\<close> as an error, and no
  listing message is attempted.
\<close>

theorem dispatch_propagates_summary_failure:
  "notifyNewListings (site timesOut firstSendFails) sixListings emptyWorld =
     (Inl (Error ''Telegram API error 429: Too Many Requests''),
      emptyWorld\<lparr>sends := 1, trace := [Send (Summary 6)]\<rparr>)"
  by (simp add: notifyNewListings_summary_fails [where err = "''Telegram API error 429: Too Many Requests''"]
      site_def firstSendFails_def emptyWorld_def)

text \<open>
  C6, as stated, fails. With six listings and a transport that accepts every message, the
  first delay follows the summary and the last delay follows the last listing message, so
  delays do not stand only between listing messages. And when the summary send fails, one
  send is made, not seven.
\<close>

theorem dispatch_pacing_counterexample:
  "5 \<le> length sixListings
   \<and> newEvents emptyWorld
        (snd (notifyNewListings (site timesOut sendsOk) sixListings emptyWorld))
      = [Send (Summary 6), Delay 500,
         Send (NewListing (plot ''01'')), Delay 500, Send (NewListing (plot ''02'')), Delay 500,
         Send (NewListing (plot ''03'')), Delay 500, Send (NewListing (plot ''04'')), Delay 500,
         Send (NewListing (plot ''05'')), Delay 500, Send (NewListing (plot ''06'')), Delay 500]
   \<and> \<not> delaysOnlyBetweenListings False
        (newEvents emptyWorld
           (snd (notifyNewListings (site timesOut sendsOk) sixListings emptyWorld)))
   \<and> length (filter isSend (newEvents emptyWorld
        (snd (notifyNewListings (site timesOut firstSendFails) sixListings emptyWorld)))) = 1"
proof -
  have ok: "transport (site timesOut sendsOk) (sends emptyWorld) (Summary (length sixListings)) = None"
    by (simp add: site_def sendsOk_def)
  have ko: "transport (site timesOut firstSendFails) (sends emptyWorld) (Summary (length sixListings))
              = Some ''Telegram API error 429: Too Many Requests''"
    by (simp add: site_def firstSendFails_def emptyWorld_def)
  have t: "newEvents emptyWorld
        (snd (notifyNewListings (site timesOut sendsOk) sixListings emptyWorld))
      = [Send (Summary 6), Delay 500,
         Send (NewListing (plot ''01'')), Delay 500, Send (NewListing (plot ''02'')), Delay 500,
         Send (NewListing (plot ''03'')), Delay 500, Send (NewListing (plot ''04'')), Delay 500,
         Send (NewListing (plot ''05'')), Delay 500, Send (NewListing (plot ''06'')), Delay 500]"
    by (simp add: notifyNewListings_summary_ok [OF _ ok] notifyEach_trace newEvents_def)
       (simp add: sixListings_def site_def sendsOk_def emptyWorld_def)
  have f: "length (filter isSend (newEvents emptyWorld
        (snd (notifyNewListings (site timesOut firstSendFails) sixListings emptyWorld)))) = 1"
    by (simp add: notifyNewListings_summary_fails [OF _ ko] newEvents_def)
  show ?thesis
    unfolding t using f by simp
qed

text \<open>
  C6, amended. Given \<open>n \<ge> 5\<close> listings and a summary send that succeeds, dispatch returns
  and its events are: the summary, a delay of 500 ms, and then for each listing in order
  its message followed by a delay of 500 ms when that send succeeded and by the logged
  failure when it did not. So \<open>n + 1\<close> sends are made, the summary first and then one per
  listing; no delay comes before the summary; a delay follows the summary and every
  listing message that was sent, the last one included.
\<close>

theorem dispatch_summary_then_each:
  assumes "5 \<le> length listings"
    and "transport P (sends w) (Summary (length listings)) = None"
  shows "fst (notifyNewListings P listings w) = Inr ()
    \<and> newEvents w (snd (notifyNewListings P listings w)) =
        Send (Summary (length listings)) # Delay 500 #
        concat (map (\<lambda>(k, l). [Send (NewListing l),
                      case transport P k (NewListing l) of
                        None \<Rightarrow> Delay 500
                      | Some err \<Rightarrow> ConsoleError (NotificationFailed (listing_id l) err)])
                    (enumerate (Suc (sends w)) listings))
    \<and> filter isSend (newEvents w (snd (notifyNewListings P listings w))) =
        Send (Summary (length listings)) # map (\<lambda>l. Send (NewListing l)) listings
    \<and> length (filter isSend (newEvents w (snd (notifyNewListings P listings w))))
        = length listings + 1"
proof -
  have ev: "newEvents w (snd (notifyNewListings P listings w)) =
        Send (Summary (length listings)) # Delay 500 #
        concat (map (\<lambda>(k, l). [Send (NewListing l),
                      case transport P k (NewListing l) of
                        None \<Rightarrow> Delay 500
                      | Some err \<Rightarrow> ConsoleError (NotificationFailed (listing_id l) err)])
                    (enumerate (Suc (sends w)) listings))"
    by (simp add: notifyNewListings_summary_ok [OF assms] notifyEach_trace newEvents_def)
  have s: "filter isSend (newEvents w (snd (notifyNewListings P listings w))) =
        Send (Summary (length listings)) # map (\<lambda>l. Send (NewListing l)) listings"
    unfolding ev by (simp add: sends_of_each)
  have "length (filter isSend (newEvents w (snd (notifyNewListings P listings w))))
        = length listings + 1"
    unfolding s by simp
  with ev s show ?thesis
    by (simp add: notifyNewListings_summary_ok [OF assms])
qed

theorem dispatch_summary_then_each_witness:
  "5 \<le> length sixListings
   \<and> transport (site timesOut secondSendFails) (sends emptyWorld) (Summary (length sixListings)) = None
   \<and> filter isSend (newEvents emptyWorld
        (snd (notifyNewListings (site timesOut secondSendFails) sixListings emptyWorld)))
      = Send (Summary 6) # map (\<lambda>l. Send (NewListing l)) sixListings
   \<and> length (filter isSend (newEvents emptyWorld
        (snd (notifyNewListings (site timesOut secondSendFails) sixListings emptyWorld)))) = 7"
proof -
  have n: "5 \<le> length sixListings" by simp
  have ok: "transport (site timesOut secondSendFails) (sends emptyWorld) (Summary (length sixListings)) = None"
    by (simp add: site_def secondSendFails_def emptyWorld_def)
  have "filter isSend (newEvents emptyWorld
        (snd (notifyNewListings (site timesOut secondSendFails) sixListings emptyWorld)))
      = Send (Summary (length sixListings)) # map (\<lambda>l. Send (NewListing l)) sixListings"
    using dispatch_summary_then_each [OF n ok] by blast
  then show ?thesis
    using n ok by simp
qed

section \<open>Store commands\<close>

lemma addSeenIds_trace:
  "trace (addSeenIds ids w) =
     trace w @ (if ids = [] then [] else [SAdd REDIS_KEY ids, Expire REDIS_KEY TTL_SECONDS])"
  by (simp add: addSeenIds_def sadd_def expire_def)

lemma addSeenIds_frame [simp]:
  "sends (addSeenIds ids w) = sends w" "attempts (addSeenIds ids w) = attempts w"
  "persistedIds (addSeenIds ids w) = persistedIds w \<union> set ids"
  "persistedFingerprints (addSeenIds ids w) = persistedFingerprints w"
  "redis (addSeenIds ids w) FINGERPRINT_KEY = redis w FINGERPRINT_KEY"
  by (auto simp: addSeenIds_def sadd_def expire_def persistedIds_def persistedFingerprints_def
      split: option.split)

lemma addSeenFingerprints_trace:
  "trace (addSeenFingerprints fps w) =
     trace w @ (if fps = [] then []
                else [SAdd FINGERPRINT_KEY fps, Expire FINGERPRINT_KEY TTL_SECONDS])"
  by (simp add: addSeenFingerprints_def sadd_def expire_def)

lemma addSeenFingerprints_frame [simp]:
  "sends (addSeenFingerprints fps w) = sends w"
  "attempts (addSeenFingerprints fps w) = attempts w"
  "persistedFingerprints (addSeenFingerprints fps w) = persistedFingerprints w \<union> set fps"
  "persistedIds (addSeenFingerprints fps w) = persistedIds w"
  "redis (addSeenFingerprints fps w) REDIS_KEY = redis w REDIS_KEY"
  by (auto simp: addSeenFingerprints_def sadd_def expire_def persistedIds_def
      persistedFingerprints_def split: option.split)

lemma hasSeenIds_eq: "hasSeenIds w = (redis w REDIS_KEY \<noteq> None, emit (Exists REDIS_KEY) w)"
  by (simp add: hasSeenIds_def exists_key_def)

lemma persisted_notifyEach [simp]:
  "persistedIds (notifyEach P ls w) = persistedIds w"
  "persistedFingerprints (notifyEach P ls w) = persistedFingerprints w"
  by (simp_all add: persistedIds_def persistedFingerprints_def)

section \<open>The fetch phase\<close>

lemma scrapeListings_frame:
  assumes "scrapeListings P u w = (r, w1)"
  shows "redis w1 = redis w \<and> sends w1 = sends w
    \<and> (\<exists>evs. trace w1 = trace w @ evs \<and> (\<forall>ev \<in> set evs. isFetchEvent ev))"
  using assms
  by (auto simp: scrapeListings_def scrapeAttempts_unrolled
      split: option.splits sum.splits if_splits)

lemma scrapeAll_frame:
  "scrapeAll P us acc w = (r, w1) \<Longrightarrow>
   redis w1 = redis w \<and> sends w1 = sends w
    \<and> (\<exists>evs. trace w1 = trace w @ evs \<and> (\<forall>ev \<in> set evs. isFetchEvent ev))"
proof (induction us arbitrary: acc w)
  case Nil
  then show ?case by simp
next
  case (Cons u us)
  obtain r0 w0 where s: "scrapeListings P u w = (r0, w0)"
    by (cases "scrapeListings P u w")
  from scrapeListings_frame [OF s] obtain evs0 where
    f0: "redis w0 = redis w" "sends w0 = sends w" "trace w0 = trace w @ evs0"
      "\<forall>ev \<in> set evs0. isFetchEvent ev"
    by blast
  show ?case
  proof (cases r0)
    case (Inl err)
    with Cons.prems s have "w1 = w0" by simp
    with f0 show ?thesis by blast
  next
    case (Inr ls)
    with Cons.prems s have "scrapeAll P us (addListings acc ls) w0 = (r, w1)" by simp
    from Cons.IH [OF this] obtain evs1 where
      f1: "redis w1 = redis w0" "sends w1 = sends w0" "trace w1 = trace w0 @ evs1"
        "\<forall>ev \<in> set evs1. isFetchEvent ev"
      by blast
    have "trace w1 = trace w @ (evs0 @ evs1)" "\<forall>ev \<in> set (evs0 @ evs1). isFetchEvent ev"
      using f0 f1 by auto
    with f0 f1 show ?thesis by metis
  qed
qed

lemma main_after_fetch:
  assumes "validateEnv e = Inr ()"
    and "scrapeAll P (collectUrls e) [] w = (Inr allListings, w1)"
  shows "main P e w =
     (if allListings = [] then notifyZeroListings P w1
      else if redis w1 REDIS_KEY = None
        then firstRun P (length (collectUrls e)) allListings (emit (Exists REDIS_KEY) w1)
      else compareRun P allListings (emit (Exists REDIS_KEY) w1))"
  using assms by (simp add: main_def hasSeenIds_eq)

section \<open>The branches of the run\<close>

lemma fetch_event_kind:
  "isFetchEvent ev \<Longrightarrow> \<not> isStoreEvent ev \<and> \<not> isSend ev \<and> \<not> writesKey k ev"
  by (cases ev) simp_all

lemma no_send_in_fetch: "\<forall>ev \<in> set evs. isFetchEvent ev \<Longrightarrow> filter isSend evs = []"
  by (induction evs) (auto dest: fetch_event_kind)

lemma run_eq:
  "run P e w =
     (case main P e w of
        (Inr u, w1) \<Rightarrow> (0, w1)
      | (Inl err, w1) \<Rightarrow>
          (1, w1\<lparr>sends := Suc (sends w1),
                 trace := trace w1 @
                   ConsoleError (FatalError (message err)) #
                   Send (ScrapeFailed (escapeHtml (message err))) #
                   (case transport P (sends w1) (ScrapeFailed (escapeHtml (message err))) of
                      None \<Rightarrow> []
                    | Some err' \<Rightarrow>
                        [ConsoleError (ErrorNotificationFailed err')])\<rparr>))"
  by (simp add: run_def notifyError_eq consoleError_def emit_def
      split: prod.split sum.split option.split)

lemma firstRun_eq:
  assumes "allListings \<noteq> []"
  shows "firstRun P n allListings w =
     ((case transport P (sends w) (Initialized (length allListings) n) of
         None \<Rightarrow> Inr () | Some err \<Rightarrow> Inl (Error err)),
      (addSeenFingerprints (map getFingerprint allListings)
         (addSeenIds (map listing_id allListings) w))
       \<lparr>sends := Suc (sends w),
        trace := trace w @
          [SAdd REDIS_KEY (map listing_id allListings), Expire REDIS_KEY TTL_SECONDS,
           SAdd FINGERPRINT_KEY (map getFingerprint allListings),
           Expire FINGERPRINT_KEY TTL_SECONDS,
           Send (Initialized (length allListings) n)]\<rparr>)"
  using assms
  by (simp add: firstRun_def notifyInitialized_def sendTelegramMessage_eq Let_def
      addSeenIds_trace addSeenFingerprints_trace)

lemma persisted_update [simp]:
  "persistedIds (w\<lparr>sends := s, trace := t\<rparr>) = persistedIds w"
  "persistedFingerprints (w\<lparr>sends := s, trace := t\<rparr>) = persistedFingerprints w"
  by (simp_all add: persistedIds_def persistedFingerprints_def)

lemma persistedIds_fresh: "redis w REDIS_KEY = None \<Longrightarrow> persistedIds w = {}"
  by (simp add: persistedIds_def)

lemma persisted_cong:
  "redis w' = redis w \<Longrightarrow> persistedIds w' = persistedIds w"
  "redis w' = redis w \<Longrightarrow> persistedFingerprints w' = persistedFingerprints w"
  by (simp_all add: persistedIds_def persistedFingerprints_def)

text \<open>
  C2. On a first run (the identity key does not exist) with a non-empty batch: after the
  fetch, \<^verbatim>\<open>main\<close> checks the key, adds all ids to the identity set, adds all fingerprints to
  the fingerprint set, and sends the initialization message, and nothing else. The only
  message \<^verbatim>\<open>main\<close> sends is that one, so no listing is notified; afterwards the identity
  set holds exactly the ids of the batch and the fingerprint set holds the fingerprints of
  the batch.
\<close>

theorem first_run_seeds:
  assumes "validateEnv e = Inr ()"
    and "scrapeAll P (collectUrls e) [] w = (Inr allListings, w1)"
    and "allListings \<noteq> []"
    and "redis w REDIS_KEY = None"
    and "main P e w = (r, w')"
  shows "newEvents w1 w' =
      [Exists REDIS_KEY,
       SAdd REDIS_KEY (map listing_id allListings), Expire REDIS_KEY TTL_SECONDS,
       SAdd FINGERPRINT_KEY (map getFingerprint allListings),
       Expire FINGERPRINT_KEY TTL_SECONDS,
       Send (Initialized (length allListings) (length (collectUrls e)))]
    \<and> filter isSend (newEvents w w') =
        [Send (Initialized (length allListings) (length (collectUrls e)))]
    \<and> persistedIds w' = set (map listing_id allListings)
    \<and> persistedFingerprints w' =
        persistedFingerprints w \<union> set (map getFingerprint allListings)
    \<and> r = (case transport P (sends w)
                 (Initialized (length allListings) (length (collectUrls e))) of
             None \<Rightarrow> Inr () | Some err \<Rightarrow> Inl (Error err))"
proof -
  from scrapeAll_frame [OF assms(2)] obtain evs where
    fr: "redis w1 = redis w" "sends w1 = sends w" "trace w1 = trace w @ evs"
      "\<forall>ev \<in> set evs. isFetchEvent ev"
    by blast
  have first: "redis w1 REDIS_KEY = None"
    using fr(1) assms(4) by simp
  have m: "main P e w =
      firstRun P (length (collectUrls e)) allListings (emit (Exists REDIS_KEY) w1)"
    using main_after_fetch [OF assms(1,2)] assms(3) first by simp
  note eq = m [unfolded firstRun_eq [OF assms(3)] assms(5)]
  have r: "r = (case transport P (sends w)
                 (Initialized (length allListings) (length (collectUrls e))) of
             None \<Rightarrow> Inr () | Some err \<Rightarrow> Inl (Error err))"
    using eq fr(2) by simp
  have t: "trace w' = trace w1 @
      [Exists REDIS_KEY,
       SAdd REDIS_KEY (map listing_id allListings), Expire REDIS_KEY TTL_SECONDS,
       SAdd FINGERPRINT_KEY (map getFingerprint allListings),
       Expire FINGERPRINT_KEY TTL_SECONDS,
       Send (Initialized (length allListings) (length (collectUrls e)))]"
    using eq by simp
  have tw: "trace w' = trace w @ (evs @
      [Exists REDIS_KEY,
       SAdd REDIS_KEY (map listing_id allListings), Expire REDIS_KEY TTL_SECONDS,
       SAdd FINGERPRINT_KEY (map getFingerprint allListings),
       Expire FINGERPRINT_KEY TTL_SECONDS,
       Send (Initialized (length allListings) (length (collectUrls e)))])"
    using t fr(3) by simp
  have s: "filter isSend (newEvents w w') =
        [Send (Initialized (length allListings) (length (collectUrls e)))]"
    unfolding newEvents_append [OF tw] using no_send_in_fetch [OF fr(4)] by simp
  have p0: "persistedIds w1 = {}" "persistedFingerprints w1 = persistedFingerprints w"
    using persistedIds_fresh [OF first] persisted_cong(2) [OF fr(1)] by simp_all
  have w': "w' = (addSeenFingerprints (map getFingerprint allListings)
         (addSeenIds (map listing_id allListings) (emit (Exists REDIS_KEY) w1)))
       \<lparr>sends := Suc (sends (emit (Exists REDIS_KEY) w1)), trace := trace w'\<rparr>"
    using eq by simp
  have p: "persistedIds w' = set (map listing_id allListings)"
    "persistedFingerprints w' = persistedFingerprints w \<union> set (map getFingerprint allListings)"
    by (subst w', simp add: p0)+
  show ?thesis
    using newEvents_append [OF t] s p r by simp
qed

lemma addListings_scraped [simp]:
  "addListings [] scrapedListings = scrapedListings"
  "scrapedListings \<noteq> []" "length scrapedListings = 3"
  by (simp_all add: scrapedListings_def)

lemma scrapeAll_returns:
  "scrapeAll (site (returns ls) t) [''https://www.njuskalo.hr/x''] [] w =
     (Inr (addListings [] ls),
      w\<lparr>attempts := attempts w + 1, trace := trace w @ [Goto ''https://www.njuskalo.hr/x'' 1]\<rparr>)"
  by (simp add: scrapeListings_def scrapeAttempts_unrolled site_def returns_def supportedSite_def)

lemma fresh_emptyWorld [simp]:
  "redis emptyWorld REDIS_KEY = None" "sends emptyWorld = 0" "trace emptyWorld = []"
  "persistedFingerprints emptyWorld = {}"
  by (simp_all add: emptyWorld_def persistedFingerprints_def)

theorem first_run_seeds_witness:
  "validateEnv envOk = Inr () \<and> scrapedListings \<noteq> [] \<and> redis emptyWorld REDIS_KEY = None
   \<and> filter isSend (newEvents emptyWorld
        (snd (main (site (returns scrapedListings) firstSendFails) envOk emptyWorld)))
      = [Send (Initialized 3 1)]
   \<and> persistedIds (snd (main (site (returns scrapedListings) firstSendFails) envOk emptyWorld))
      = {''1001'', ''9999'', ''2001''}
   \<and> persistedFingerprints
        (snd (main (site (returns scrapedListings) firstSendFails) envOk emptyWorld))
      = {''zapresic, kuca, 95 m2|200.000EUR'', ''sveta nedelja, kuca, 150 m2|300.000EUR'',
         ''bregana, kuca, 200 m2|250.000EUR''}"
proof -
  have f: "scrapeAll (site (returns scrapedListings) firstSendFails) (collectUrls envOk) []
             emptyWorld
           = (Inr scrapedListings,
              emptyWorld\<lparr>attempts := attempts emptyWorld + 1,
                trace := trace emptyWorld @ [Goto ''https://www.njuskalo.hr/x'' 1]\<rparr>)"
    using scrapeAll_returns [of scrapedListings firstSendFails emptyWorld] by simp
  have m: "main (site (returns scrapedListings) firstSendFails) envOk emptyWorld
        = (fst (main (site (returns scrapedListings) firstSendFails) envOk emptyWorld),
           snd (main (site (returns scrapedListings) firstSendFails) envOk emptyWorld))"
    by simp
  have "filter isSend (newEvents emptyWorld
        (snd (main (site (returns scrapedListings) firstSendFails) envOk emptyWorld)))
      = [Send (Initialized (length scrapedListings) (length (collectUrls envOk)))]
    \<and> persistedIds (snd (main (site (returns scrapedListings) firstSendFails) envOk emptyWorld))
      = set (map listing_id scrapedListings)
    \<and> persistedFingerprints
        (snd (main (site (returns scrapedListings) firstSendFails) envOk emptyWorld))
      = persistedFingerprints emptyWorld \<union> set (map getFingerprint scrapedListings)"
    using first_run_seeds [OF validate_envOk f addListings_scraped(2) fresh_emptyWorld(1) m]
    by blast
  then show ?thesis
    by (simp add: scrapedListings_def insert_commute)
qed

section \<open>Zero listings\<close>

lemma main_zero:
  assumes "validateEnv e = Inr ()"
    and "scrapeAll P (collectUrls e) [] w = (Inr [], w1)"
  shows "main P e w =
     ((case transport P (sends w) ZeroListings of None \<Rightarrow> Inr () | Some err \<Rightarrow> Inl (Error err)),
      w1\<lparr>sends := Suc (sends w), trace := trace w1 @ [Send ZeroListings]\<rparr>)"
proof -
  from scrapeAll_frame [OF assms(2)] have "sends w1 = sends w" by blast
  then show ?thesis
    using main_after_fetch [OF assms] by (simp add: notifyZeroListings_def sendTelegramMessage_eq)
qed

text \<open>
  C8, as stated, fails: the fetch succeeds with no listing, the warning send is refused,
  and the run ends with exit code 1 after a second message, the error notification.
\<close>

theorem zero_listings_counterexample:
  "validateEnv envOk = Inr ()
   \<and> scrapeAll (site (returns []) firstSendFails) (collectUrls envOk) [] seededWorld
       = (Inr [], seededWorld\<lparr>attempts := 1, trace := [Goto ''https://www.njuskalo.hr/x'' 1]\<rparr>)
   \<and> fst (run (site (returns []) firstSendFails) envOk seededWorld) = 1
   \<and> filter isSend (newEvents seededWorld
        (snd (run (site (returns []) firstSendFails) envOk seededWorld)))
      = [Send ZeroListings,
         Send (ScrapeFailed ''Telegram API error 429: Too Many Requests'')]"
proof -
  have f: "scrapeAll (site (returns []) firstSendFails) (collectUrls envOk) [] seededWorld
       = (Inr [], seededWorld\<lparr>attempts := 1, trace := [Goto ''https://www.njuskalo.hr/x'' 1]\<rparr>)"
    using scrapeAll_returns [of "[]" firstSendFails seededWorld]
    by (simp add: seededWorld_def)
  show ?thesis
    unfolding f run_eq main_zero [OF validate_envOk f]
    by (simp add: site_def firstSendFails_def seededWorld_def newEvents_def escapeHtml_def)
qed

text \<open>
  C8, amended. When validation passes and the fetch ends with no listing, \<^verbatim>\<open>main\<close> only
  sends the zero-listings warning: the run sends no command to the store and leaves it as
  it was. The exit code is 0 exactly when that send succeeds, and then the warning is the
  only message; when the send fails the run ends with exit code 1, after the warning and
  one error notification.
\<close>

theorem zero_listings_warning:
  assumes "validateEnv e = Inr ()"
    and "scrapeAll P (collectUrls e) [] w = (Inr [], w1)"
  shows "newEvents w1 (snd (main P e w)) = [Send ZeroListings]
    \<and> redis (snd (run P e w)) = redis w
    \<and> filter isStoreEvent (newEvents w (snd (run P e w))) = []
    \<and> fst (run P e w) = (if transport P (sends w) ZeroListings = None then 0 else 1)
    \<and> filter isSend (newEvents w (snd (run P e w))) =
        Send ZeroListings #
        (case transport P (sends w) ZeroListings of
           None \<Rightarrow> []
         | Some err \<Rightarrow> [Send (ScrapeFailed (escapeHtml err))])"
proof -
  from scrapeAll_frame [OF assms(2)] obtain evs where
    fr: "redis w1 = redis w" "sends w1 = sends w" "trace w1 = trace w @ evs"
      "\<forall>ev \<in> set evs. isFetchEvent ev"
    by blast
  have ns: "filter isSend evs = []"
    using no_send_in_fetch [OF fr(4)] .
  have nst: "filter isStoreEvent evs = []"
    using fr(4) by (auto simp: filter_empty_conv dest: fetch_event_kind)
  note m = main_zero [OF assms]
  show ?thesis
  proof (cases "transport P (sends w) ZeroListings")
    case None
    then show ?thesis
      unfolding run_eq m using fr ns nst by (simp add: newEvents_def)
  next
    case (Some err)
    then show ?thesis
      unfolding run_eq m using fr ns nst
      by (simp add: newEvents_def split: option.split)
  qed
qed

theorem zero_listings_warning_witness:
  "validateEnv envOk = Inr ()
   \<and> fst (run (site (returns []) sendsOk) envOk seededWorld) = 0
   \<and> redis (snd (run (site (returns []) sendsOk) envOk seededWorld)) = redis seededWorld
   \<and> filter isSend (newEvents seededWorld (snd (run (site (returns []) sendsOk) envOk seededWorld)))
      = [Send ZeroListings]"
proof -
  have f: "scrapeAll (site (returns []) sendsOk) (collectUrls envOk) [] seededWorld
       = (Inr [], seededWorld\<lparr>attempts := attempts seededWorld + 1,
            trace := trace seededWorld @ [Goto ''https://www.njuskalo.hr/x'' 1]\<rparr>)"
    using scrapeAll_returns [of "[]" sendsOk seededWorld] by simp
  show ?thesis
    using zero_listings_warning [OF validate_envOk f]
    by (simp add: site_def sendsOk_def)
qed

section \<open>Comparison\<close>

lemma notifyNewListings_frame:
  assumes "notifyNewListings P ls w = (r, w')"
  shows "redis w' = redis w"
    and "\<exists>evs. trace w' = trace w @ evs
           \<and> (\<forall>ev \<in> set evs. \<not> isStoreEvent ev
                \<and> (\<forall>m. ev = Send m \<longrightarrow> isDispatch m \<and> (\<forall>l. m = NewListing l \<longrightarrow> l \<in> set ls)))"
proof -
  let ?body = "\<lambda>kls. concat (map (\<lambda>(k, l). [Send (NewListing l),
                   case transport P k (NewListing l) of
                     None \<Rightarrow> Delay 500
                   | Some err \<Rightarrow> ConsoleError (NotificationFailed (listing_id l) err)]) kls)"
  have body: "\<not> isStoreEvent ev
      \<and> (\<forall>m. ev = Send m \<longrightarrow> isDispatch m \<and> (\<forall>l. m = NewListing l \<longrightarrow> l \<in> set ls))"
    if "ev \<in> set (?body (enumerate n ls))" for ev n
    using that by (auto simp: in_set_enumerate_eq split: option.splits)
  show "redis w' = redis w"
    using assms
    by (auto simp: notifyNewListings_def sendTelegramMessage_eq delay_def
        split: if_splits option.splits)
  show "\<exists>evs. trace w' = trace w @ evs
           \<and> (\<forall>ev \<in> set evs. \<not> isStoreEvent ev
                \<and> (\<forall>m. ev = Send m \<longrightarrow> isDispatch m \<and> (\<forall>l. m = NewListing l \<longrightarrow> l \<in> set ls)))"
  proof (cases "5 \<le> length ls")
    case False
    then have "trace w' = trace w @ ?body (enumerate (sends w) ls)"
      using assms by (auto simp: notifyNewListings_short notifyEach_trace)
    with body show ?thesis by blast
  next
    case True
    show ?thesis
    proof (cases "transport P (sends w) (Summary (length ls))")
      case None
      have "trace w' = trace w @ (Send (Summary (length ls)) # Delay 500 #
              ?body (enumerate (Suc (sends w)) ls))"
        using assms by (auto simp: notifyNewListings_summary_ok [OF True None] notifyEach_trace)
      moreover have "\<not> isStoreEvent ev
          \<and> (\<forall>m. ev = Send m \<longrightarrow> isDispatch m \<and> (\<forall>l. m = NewListing l \<longrightarrow> l \<in> set ls))"
        if "ev \<in> set (Send (Summary (length ls)) # Delay 500 # ?body (enumerate (Suc (sends w)) ls))"
        for ev
        using that body [of ev "Suc (sends w)"] by auto
      ultimately show ?thesis by blast
    next
      case (Some err)
      have "trace w' = trace w @ [Send (Summary (length ls))]"
        using assms by (auto simp: notifyNewListings_summary_fails [OF True Some])
      then show ?thesis by auto
    qed
  qed
qed

text \<open>The comparison branch with the reads resolved.\<close>

lemma compareRun_eq:
  "compareRun P allListings w =
     (let newByIdListings = filter (\<lambda>l. listing_id l \<notin> persistedIds w) allListings;
          genuinelyNew = filter (\<lambda>l. getFingerprint l \<notin> persistedFingerprints w) newByIdListings;
          w2 = emit (SMembers FINGERPRINT_KEY) (emit (SMembers REDIS_KEY) w);
          fps = map getFingerprint allListings
      in if newByIdListings = [] then (Inr (), addSeenFingerprints fps w2)
         else if genuinelyNew = []
           then (Inr (), addSeenFingerprints fps (addSeenIds (map listing_id newByIdListings) w2))
         else
           (case notifyNewListings P genuinelyNew
                   (addSeenIds (map listing_id newByIdListings) w2) of
              (Inl err, w3) \<Rightarrow> (Inl err, w3)
            | (Inr u, w3) \<Rightarrow> (Inr (), addSeenFingerprints fps w3)))"
  by (simp add: compareRun_def getSeenIds_eq getSeenFingerprints_eq classify_filter Let_def
      split: prod.split sum.split)

lemma main_compare:
  assumes "validateEnv e = Inr ()"
    and "scrapeAll P (collectUrls e) [] w = (Inr allListings, w1)"
    and "allListings \<noteq> []"
    and "redis w REDIS_KEY \<noteq> None"
  shows "main P e w = compareRun P allListings (emit (Exists REDIS_KEY) w1)"
proof -
  from scrapeAll_frame [OF assms(2)] have "redis w1 = redis w" by blast
  then show ?thesis
    using main_after_fetch [OF assms(1,2)] assms(3,4) by simp
qed

text \<open>
  C10. On a run that is not the first, with a non-empty batch of which every id is already
  in the identity set: after the fetch \<^verbatim>\<open>main\<close> checks the identity key, reads both sets,
  adds the fingerprints of the whole batch to the fingerprint set and refreshes its expiry,
  and does nothing else. No event of the run writes the identity key (no add, no expiry),
  its entry in the store is unchanged, and the run ends with exit code 0.
\<close>

theorem all_seen_leaves_identity_set:
  assumes "validateEnv e = Inr ()"
    and "scrapeAll P (collectUrls e) [] w = (Inr allListings, w1)"
    and "allListings \<noteq> []"
    and "redis w REDIS_KEY \<noteq> None"
    and "\<forall>l \<in> set allListings. listing_id l \<in> persistedIds w"
  shows "fst (run P e w) = 0
    \<and> newEvents w1 (snd (run P e w)) =
        [Exists REDIS_KEY, SMembers REDIS_KEY, SMembers FINGERPRINT_KEY,
         SAdd FINGERPRINT_KEY (map getFingerprint allListings),
         Expire FINGERPRINT_KEY TTL_SECONDS]
    \<and> filter (writesKey REDIS_KEY) (newEvents w (snd (run P e w))) = []
    \<and> redis (snd (run P e w)) REDIS_KEY = redis w REDIS_KEY
    \<and> persistedFingerprints (snd (run P e w)) =
        persistedFingerprints w \<union> set (map getFingerprint allListings)"
proof -
  from scrapeAll_frame [OF assms(2)] obtain evs where
    fr: "redis w1 = redis w" "sends w1 = sends w" "trace w1 = trace w @ evs"
      "\<forall>ev \<in> set evs. isFetchEvent ev"
    by blast
  have nw: "filter (writesKey REDIS_KEY) evs = []"
    using fr(4) by (auto simp: filter_empty_conv dest: fetch_event_kind)
  have p: "persistedIds w1 = persistedIds w"
    "persistedFingerprints w1 = persistedFingerprints w"
    using persisted_cong [OF fr(1)] by simp_all
  have none: "filter (\<lambda>l. listing_id l \<notin> persistedIds w) allListings = []"
    using assms(5) by (simp add: filter_empty_conv)
  have m: "main P e w =
      (Inr (), addSeenFingerprints (map getFingerprint allListings)
                 (emit (SMembers FINGERPRINT_KEY) (emit (SMembers REDIS_KEY)
                    (emit (Exists REDIS_KEY) w1))))"
    unfolding main_compare [OF assms(1-4)] compareRun_eq by (simp add: p none Let_def)
  have r: "run P e w =
      (0, addSeenFingerprints (map getFingerprint allListings)
                 (emit (SMembers FINGERPRINT_KEY) (emit (SMembers REDIS_KEY)
                    (emit (Exists REDIS_KEY) w1))))"
    unfolding run_eq m by simp
  have t1: "trace (snd (run P e w)) = trace w1 @
        [Exists REDIS_KEY, SMembers REDIS_KEY, SMembers FINGERPRINT_KEY,
         SAdd FINGERPRINT_KEY (map getFingerprint allListings),
         Expire FINGERPRINT_KEY TTL_SECONDS]"
    unfolding r using assms(3) by (simp add: addSeenFingerprints_trace)
  have t: "trace (snd (run P e w)) = trace w @ (evs @
        [Exists REDIS_KEY, SMembers REDIS_KEY, SMembers FINGERPRINT_KEY,
         SAdd FINGERPRINT_KEY (map getFingerprint allListings),
         Expire FINGERPRINT_KEY TTL_SECONDS])"
    using t1 fr(3) by simp
  have k: "redis (snd (run P e w)) REDIS_KEY = redis w REDIS_KEY"
    unfolding r using fr(1) by simp
  have f: "persistedFingerprints (snd (run P e w)) =
        persistedFingerprints w \<union> set (map getFingerprint allListings)"
    unfolding r using p(2) by simp
  show ?thesis
    unfolding newEvents_append [OF t1] newEvents_append [OF t]
    using r nw k f by simp
qed

lemma seededWorld_simps [simp]:
  "redis seededWorld REDIS_KEY \<noteq> None" "sends seededWorld = 0" "trace seededWorld = []"
  "attempts seededWorld = 0"
  by (simp_all add: seededWorld_def)

theorem all_seen_leaves_identity_set_witness:
  "validateEnv envOk = Inr () \<and> [scraped1001] \<noteq> [] \<and> redis seededWorld REDIS_KEY \<noteq> None
   \<and> listing_id scraped1001 \<in> persistedIds seededWorld
   \<and> fst (run (site (returns [scraped1001]) sendsOk) envOk seededWorld) = 0
   \<and> filter (writesKey REDIS_KEY)
        (newEvents seededWorld
           (snd (run (site (returns [scraped1001]) sendsOk) envOk seededWorld))) = []
   \<and> redis (snd (run (site (returns [scraped1001]) sendsOk) envOk seededWorld)) REDIS_KEY
       = redis seededWorld REDIS_KEY
   \<and> persistedFingerprints (snd (run (site (returns [scraped1001]) sendsOk) envOk seededWorld))
       = {''zapresic, kuca, 95 m2|200.000EUR'', ''sveta nedelja, kuca, 150 m2|300.000EUR''}"
proof -
  have f: "scrapeAll (site (returns [scraped1001]) sendsOk) (collectUrls envOk) [] seededWorld
       = (Inr [scraped1001],
          seededWorld\<lparr>attempts := attempts seededWorld + 1,
            trace := trace seededWorld @ [Goto ''https://www.njuskalo.hr/x'' 1]\<rparr>)"
    using scrapeAll_returns [of "[scraped1001]" sendsOk seededWorld] by simp
  have ne: "[scraped1001] \<noteq> []" by simp
  have seen: "\<forall>l \<in> set [scraped1001]. listing_id l \<in> persistedIds seededWorld" by simp
  show ?thesis
    using all_seen_leaves_identity_set [OF validate_envOk f ne seededWorld_simps(1) seen] seen
    by simp
qed

text \<open>
  C4. After a run that is not the first and in which \<^verbatim>\<open>main\<close> returns, the fingerprint set
  holds the fingerprint of every listing of the aggregated batch; it is the set of before
  together with these fingerprints.
\<close>

theorem fingerprints_resynced:
  assumes "validateEnv e = Inr ()"
    and "scrapeAll P (collectUrls e) [] w = (Inr allListings, w1)"
    and "redis w REDIS_KEY \<noteq> None"
    and "main P e w = (Inr (), w')"
  shows "set (map getFingerprint allListings) \<subseteq> persistedFingerprints w'
    \<and> persistedFingerprints w' =
        persistedFingerprints w \<union> set (map getFingerprint allListings)"
proof -
  from scrapeAll_frame [OF assms(2)] have fr: "redis w1 = redis w" "sends w1 = sends w"
    by blast+
  have p: "persistedFingerprints w1 = persistedFingerprints w"
    using persisted_cong(2) [OF fr(1)] .
  have eq: "persistedFingerprints w' =
        persistedFingerprints w \<union> set (map getFingerprint allListings)"
  proof (cases "allListings = []")
    case True
    have "main P e w = notifyZeroListings P w1"
      using main_after_fetch [OF assms(1,2)] True by simp
    then have "redis w' = redis w1"
      using assms(4) by (auto simp: notifyZeroListings_def sendTelegramMessage_eq)
    then show ?thesis
      using persisted_cong(2) [of w' w1] p True by simp
  next
    case False
    let ?w2 = "emit (SMembers FINGERPRINT_KEY) (emit (SMembers REDIS_KEY)
                 (emit (Exists REDIS_KEY) w1))"
    let ?new = "filter (\<lambda>l. listing_id l \<notin> persistedIds w1) allListings"
    let ?gn = "filter (\<lambda>l. getFingerprint l \<notin> persistedFingerprints w1) ?new"
    let ?fps = "map getFingerprint allListings"
    have c: "compareRun P allListings (emit (Exists REDIS_KEY) w1) = (Inr (), w')"
      using main_compare [OF assms(1,2) False assms(3)] assms(4) by simp
    show ?thesis
    proof (cases "?new = [] \<or> ?gn = []")
      case True
      then have "w' = addSeenFingerprints ?fps ?w2
          \<or> w' = addSeenFingerprints ?fps (addSeenIds (map listing_id ?new) ?w2)"
        using c unfolding compareRun_eq by (auto simp: Let_def split: if_splits)
      then show ?thesis
        using p by auto
    next
      case False
      obtain r3 w3 where n: "notifyNewListings P ?gn (addSeenIds (map listing_id ?new) ?w2)
          = (r3, w3)"
        by (cases "notifyNewListings P ?gn (addSeenIds (map listing_id ?new) ?w2)")
      have w': "w' = addSeenFingerprints ?fps w3"
        using c False n unfolding compareRun_eq
        by (auto simp: Let_def split: if_splits sum.splits)
      have "persistedFingerprints w3 =
          persistedFingerprints (addSeenIds (map listing_id ?new) ?w2)"
        using persisted_cong(2) [OF notifyNewListings_frame(1) [OF n]] .
      then show ?thesis
        unfolding w' using p by simp
    qed
  qed
  then show ?thesis by simp
qed

section \<open>Scenario B of the test\<close>

lemma scenarioB_fetch:
  "scrapeAll (site (returns scrapedListings) t) (collectUrls envOk) [] seededWorld
     = (Inr scrapedListings,
        seededWorld\<lparr>attempts := attempts seededWorld + 1,
          trace := trace seededWorld @ [Goto ''https://www.njuskalo.hr/x'' 1]\<rparr>)"
  using scrapeAll_returns [of scrapedListings t seededWorld] by simp

lemma persisted_update_attempts [simp]:
  "persistedIds (w\<lparr>attempts := a, trace := t\<rparr>) = persistedIds w"
  "persistedFingerprints (w\<lparr>attempts := a, trace := t\<rparr>) = persistedFingerprints w"
  by (simp_all add: persistedIds_def persistedFingerprints_def)

lemma scenarioB_main:
  "main (site (returns scrapedListings) sendsOk) envOk seededWorld =
     (Inr (),
      addSeenFingerprints (map getFingerprint scrapedListings)
        (notifyEach (site (returns scrapedListings) sendsOk) [scraped2001]
           (addSeenIds [''9999'', ''2001'']
              (emit (SMembers FINGERPRINT_KEY) (emit (SMembers REDIS_KEY)
                 (emit (Exists REDIS_KEY)
                    (seededWorld\<lparr>attempts := attempts seededWorld + 1,
                       trace := trace seededWorld @ [Goto ''https://www.njuskalo.hr/x'' 1]\<rparr>)))))))"
  unfolding main_compare [OF validate_envOk scenarioB_fetch addListings_scraped(2)
      seededWorld_simps(1)] compareRun_eq
  by (simp add: Let_def scrapedListings_def notifyNewListings_short)

lemma scenarioB_trace:
  "trace (snd (main (site (returns scrapedListings) sendsOk) envOk seededWorld)) =
     [Goto ''https://www.njuskalo.hr/x'' 1,
      Exists REDIS_KEY, SMembers REDIS_KEY, SMembers FINGERPRINT_KEY,
      SAdd REDIS_KEY [''9999'', ''2001''], Expire REDIS_KEY TTL_SECONDS,
      Send (NewListing scraped2001), Delay 500,
      SAdd FINGERPRINT_KEY [''zapresic, kuca, 95 m2|200.000EUR'',
                            ''sveta nedelja, kuca, 150 m2|300.000EUR'',
                            ''bregana, kuca, 200 m2|250.000EUR''],
      Expire FINGERPRINT_KEY TTL_SECONDS]"
  unfolding scenarioB_main
  by (simp add: addSeenFingerprints_trace addSeenIds_trace notifyEach_trace scrapedListings_def
      site_def sendsOk_def del: notifyEach.simps)

theorem fingerprints_resynced_witness:
  "validateEnv envOk = Inr () \<and> redis seededWorld REDIS_KEY \<noteq> None
   \<and> fst (main (site (returns scrapedListings) sendsOk) envOk seededWorld) = Inr ()
   \<and> persistedFingerprints (snd (main (site (returns scrapedListings) sendsOk) envOk seededWorld))
      = {''zapresic, kuca, 95 m2|200.000EUR'', ''sveta nedelja, kuca, 150 m2|300.000EUR'',
         ''bregana, kuca, 200 m2|250.000EUR''}"
proof -
  have m: "main (site (returns scrapedListings) sendsOk) envOk seededWorld
      = (Inr (), snd (main (site (returns scrapedListings) sendsOk) envOk seededWorld))"
    by (simp add: scenarioB_main)
  have "persistedFingerprints (snd (main (site (returns scrapedListings) sendsOk) envOk seededWorld))
      = persistedFingerprints seededWorld \<union> set (map getFingerprint scrapedListings)"
    using fingerprints_resynced [OF validate_envOk scenarioB_fetch seededWorld_simps(1) m]
    by blast
  moreover have "fst (main (site (returns scrapedListings) sendsOk) envOk seededWorld) = Inr ()"
    by (simp add: scenarioB_main)
  ultimately show ?thesis
    by (simp add: scrapedListings_def insert_commute)
qed

section \<open>Splitting a trace\<close>

lemma idsWritten_append: "idsWritten (xs @ ys) = idsWritten xs \<union> idsWritten ys"
  by (induction xs rule: idsWritten.induct) auto

lemma split_after_prefix:
  "xs @ ys = pre @ x # post \<Longrightarrow> x \<notin> set xs \<Longrightarrow> \<exists>pre'. pre = xs @ pre' \<and> ys = pre' @ x # post"
  by (auto simp: append_eq_append_conv2 append_eq_Cons_conv)

lemma no_dispatch_in_fetch:
  "\<forall>ev \<in> set evs. isFetchEvent ev \<Longrightarrow> Send m \<notin> set evs"
  by (auto dest: fetch_event_kind)

section \<open>The store along the trace\<close>

lemma storeAfter_append: "storeAfter (xs @ ys) db = storeAfter ys (storeAfter xs db)"
proof (induction xs arbitrary: db)
  case Nil
  then show ?case by simp
next
  case (Cons ev xs)
  show ?case by (cases ev) (simp_all only: append_Cons storeAfter.simps Cons.IH)
qed

lemma storeAfter_no_store_event:
  "\<forall>ev \<in> set evs. \<not> isStoreEvent ev \<Longrightarrow> storeAfter evs db = db"
proof (induction evs arbitrary: db)
  case Nil
  then show ?case by simp
next
  case (Cons ev evs)
  then show ?case by (cases ev) simp_all
qed

lemma storeAfter_fetch: "\<forall>ev \<in> set evs. isFetchEvent ev \<Longrightarrow> storeAfter evs db = db"
  by (rule storeAfter_no_store_event) (auto dest: fetch_event_kind)

lemma identity_storeAfter:
  "identityMembers (storeAfter evs db) = identityMembers db \<union> idsWritten evs"
proof (induction evs arbitrary: db)
  case Nil
  then show ?case by simp
next
  case (Cons ev evs)
  then show ?case
    by (cases ev) (auto simp: identityMembers_def split: option.splits)
qed

lemma persistedIds_identity: "persistedIds w = identityMembers (redis w)"
  by (simp add: persistedIds_def identityMembers_def)

text \<open>The store commands of the model do to the store what their events say.\<close>

lemma addSeenIds_redis:
  "redis (addSeenIds ids w) =
     storeAfter (if ids = [] then [] else [SAdd REDIS_KEY ids, Expire REDIS_KEY TTL_SECONDS])
       (redis w)"
  by (simp add: addSeenIds_def sadd_def expire_def)

lemma addSeenFingerprints_redis:
  "redis (addSeenFingerprints fps w) =
     storeAfter (if fps = [] then []
                 else [SAdd FINGERPRINT_KEY fps, Expire FINGERPRINT_KEY TTL_SECONDS])
       (redis w)"
  by (simp add: addSeenFingerprints_def sadd_def expire_def)

section \<open>Listing messages of a run\<close>

lemma listing_sends_of_each:
  "filter isListingSend (concat (map (\<lambda>(k, l). [Send (NewListing l),
                   case transport P k (NewListing l) of
                     None \<Rightarrow> Delay 500
                   | Some err \<Rightarrow> ConsoleError (NotificationFailed (listing_id l) err)])
                 (enumerate n ls)))
   = map (\<lambda>l. Send (NewListing l)) ls"
  by (induction ls arbitrary: n) (simp_all split: option.split)

lemma no_listing_send_in_fetch:
  "\<forall>ev \<in> set evs. isFetchEvent ev \<Longrightarrow> filter isListingSend evs = []"
proof (induction evs)
  case Nil
  then show ?case by simp
next
  case (Cons ev evs)
  then show ?case by (cases ev) simp_all
qed

lemma notifyNewListings_listing_sends:
  assumes "notifyNewListings P ls w = (r, w')"
  shows "\<exists>ds. trace w' = trace w @ ds
    \<and> filter isListingSend ds =
        (if 5 \<le> length ls \<and> transport P (sends w) (Summary (length ls)) \<noteq> None then []
         else map (\<lambda>l. Send (NewListing l)) ls)"
proof (cases "5 \<le> length ls")
  case False
  then have "w' = notifyEach P ls w"
    using assms by (simp add: notifyNewListings_short)
  then show ?thesis
    using False by (simp add: notifyEach_trace listing_sends_of_each)
next
  case True
  show ?thesis
  proof (cases "transport P (sends w) (Summary (length ls))")
    case None
    have "w' = notifyEach P ls
        (w\<lparr>sends := Suc (sends w), trace := trace w @ [Send (Summary (length ls)), Delay 500]\<rparr>)"
      using assms by (simp add: notifyNewListings_summary_ok [OF True None])
    then show ?thesis
      using True None by (simp add: notifyEach_trace listing_sends_of_each)
  next
    case (Some err)
    have "w' = w\<lparr>sends := Suc (sends w), trace := trace w @ [Send (Summary (length ls))]\<rparr>"
      using assms by (simp add: notifyNewListings_summary_fails [OF True Some])
    then show ?thesis
      using True Some by simp
  qed
qed

lemma addSeenIds_listing_sends [simp]:
  "filter isListingSend (if ids = [] then [] else [SAdd REDIS_KEY ids, Expire REDIS_KEY TTL_SECONDS]) = []"
  "filter isListingSend (if fps = [] then []
       else [SAdd FINGERPRINT_KEY fps, Expire FINGERPRINT_KEY TTL_SECONDS]) = []"
  by simp_all

lemma compareRun_listing_sends:
  assumes "compareRun P allListings w = (r, w')"
  shows "\<exists>evs. trace w' = trace w @ evs
    \<and> filter isListingSend evs =
        (if 5 \<le> length (filter (\<lambda>l. listing_id l \<notin> persistedIds w
                                  \<and> getFingerprint l \<notin> persistedFingerprints w) allListings)
            \<and> transport P (sends w)
                (Summary (length (filter (\<lambda>l. listing_id l \<notin> persistedIds w
                                  \<and> getFingerprint l \<notin> persistedFingerprints w) allListings)))
                \<noteq> None
         then []
         else map (\<lambda>l. Send (NewListing l))
                (filter (\<lambda>l. listing_id l \<notin> persistedIds w
                           \<and> getFingerprint l \<notin> persistedFingerprints w) allListings))"
proof -
  let ?w2 = "emit (SMembers FINGERPRINT_KEY) (emit (SMembers REDIS_KEY) w)"
  let ?new = "filter (\<lambda>l. listing_id l \<notin> persistedIds w) allListings"
  let ?gn = "filter (\<lambda>l. listing_id l \<notin> persistedIds w
                         \<and> getFingerprint l \<notin> persistedFingerprints w) allListings"
  let ?fps = "map getFingerprint allListings"
  let ?w3 = "addSeenIds (map listing_id ?new) ?w2"
  have gn: "filter (\<lambda>l. getFingerprint l \<notin> persistedFingerprints w) ?new = ?gn"
    by (simp add: conj_commute)
  have t3: "trace ?w3 = trace w @ [SMembers REDIS_KEY, SMembers FINGERPRINT_KEY] @
      (if map listing_id ?new = [] then []
       else [SAdd REDIS_KEY (map listing_id ?new), Expire REDIS_KEY TTL_SECONDS])"
    by (simp add: addSeenIds_trace)
  have s3: "sends ?w3 = sends w"
    by simp
  consider (none) "?new = []" | (reposts) "?new \<noteq> []" "?gn = []" | (dispatch) "?gn \<noteq> []"
    by blast
  then show ?thesis
  proof cases
    case none
    then have g: "?gn = []"
      using gn by (metis filter.simps(1))
    have "w' = addSeenFingerprints ?fps ?w2"
      using assms none unfolding compareRun_eq Let_def by simp
    then have "trace w' = trace w @ ([SMembers REDIS_KEY, SMembers FINGERPRINT_KEY] @
        (if ?fps = [] then []
         else [SAdd FINGERPRINT_KEY ?fps, Expire FINGERPRINT_KEY TTL_SECONDS]))"
      by (simp add: addSeenFingerprints_trace)
    then show ?thesis
      unfolding g by (intro exI conjI, assumption) simp
  next
    case reposts
    have "w' = addSeenFingerprints ?fps ?w3"
      using assms reposts unfolding compareRun_eq Let_def gn by simp
    then have "trace w' = trace w @ ([SMembers REDIS_KEY, SMembers FINGERPRINT_KEY] @
      (if map listing_id ?new = [] then []
       else [SAdd REDIS_KEY (map listing_id ?new), Expire REDIS_KEY TTL_SECONDS]) @
        (if ?fps = [] then []
         else [SAdd FINGERPRINT_KEY ?fps, Expire FINGERPRINT_KEY TTL_SECONDS]))"
      using t3 by (simp add: addSeenFingerprints_trace)
    then show ?thesis
      unfolding reposts(2) by (intro exI conjI, assumption) simp
  next
    case dispatch
    then have new: "?new \<noteq> []"
      using gn by (metis filter.simps(1))
    obtain r4 w4 where n: "notifyNewListings P ?gn ?w3 = (r4, w4)"
      by (cases "notifyNewListings P ?gn ?w3")
    from notifyNewListings_listing_sends [OF n, unfolded s3] obtain ds where
      ds: "trace w4 = trace ?w3 @ ds"
        "filter isListingSend ds =
          (if 5 \<le> length ?gn \<and> transport P (sends w) (Summary (length ?gn)) \<noteq> None then []
           else map (\<lambda>l. Send (NewListing l)) ?gn)"
      by blast
    have c: "compareRun P allListings w =
        (case r4 of Inl err \<Rightarrow> (Inl err, w4)
         | Inr u \<Rightarrow> (Inr (), addSeenFingerprints ?fps w4))"
      unfolding compareRun_eq Let_def gn using dispatch new n by (simp split: sum.split)
    have "w' = w4 \<or> w' = addSeenFingerprints ?fps w4"
      using c assms by (cases r4) simp_all
    then have "trace w' = trace w @ ([SMembers REDIS_KEY, SMembers FINGERPRINT_KEY] @
      (if map listing_id ?new = [] then []
       else [SAdd REDIS_KEY (map listing_id ?new), Expire REDIS_KEY TTL_SECONDS]) @ ds)
      \<or> trace w' = trace w @ ([SMembers REDIS_KEY, SMembers FINGERPRINT_KEY] @
      (if map listing_id ?new = [] then []
       else [SAdd REDIS_KEY (map listing_id ?new), Expire REDIS_KEY TTL_SECONDS]) @ ds @
        (if ?fps = [] then []
         else [SAdd FINGERPRINT_KEY ?fps, Expire FINGERPRINT_KEY TTL_SECONDS]))"
      using ds(1) t3 by (auto simp: addSeenFingerprints_trace)
    then show ?thesis
    proof
      assume "trace w' = trace w @ ([SMembers REDIS_KEY, SMembers FINGERPRINT_KEY] @
      (if map listing_id ?new = [] then []
       else [SAdd REDIS_KEY (map listing_id ?new), Expire REDIS_KEY TTL_SECONDS]) @ ds)"
      then show ?thesis
        by (intro exI conjI, assumption) (simp add: ds(2))
    next
      assume "trace w' = trace w @ ([SMembers REDIS_KEY, SMembers FINGERPRINT_KEY] @
      (if map listing_id ?new = [] then []
       else [SAdd REDIS_KEY (map listing_id ?new), Expire REDIS_KEY TTL_SECONDS]) @ ds @
        (if ?fps = [] then []
         else [SAdd FINGERPRINT_KEY ?fps, Expire FINGERPRINT_KEY TTL_SECONDS]))"
      then show ?thesis
        by (intro exI conjI, assumption) (simp add: ds(2))
    qed
  qed
qed

lemma compareRun_persistedIds:
  assumes "compareRun P allListings w = (r, w')"
  shows "persistedIds w' =
     persistedIds w \<union> set (map listing_id (filter (\<lambda>l. listing_id l \<notin> persistedIds w) allListings))"
proof -
  let ?w2 = "emit (SMembers FINGERPRINT_KEY) (emit (SMembers REDIS_KEY) w)"
  let ?new = "filter (\<lambda>l. listing_id l \<notin> persistedIds w) allListings"
  let ?gn = "filter (\<lambda>l. getFingerprint l \<notin> persistedFingerprints w) ?new"
  let ?fps = "map getFingerprint allListings"
  let ?w3 = "addSeenIds (map listing_id ?new) ?w2"
  consider (none) "?new = []" | (reposts) "?new \<noteq> []" "?gn = []"
    | (dispatch) "?new \<noteq> []" "?gn \<noteq> []"
    by blast
  then show ?thesis
  proof cases
    case none
    then have "w' = addSeenFingerprints ?fps ?w2"
      using assms unfolding compareRun_eq Let_def by simp
    then show ?thesis
      using none by simp
  next
    case reposts
    then have "w' = addSeenFingerprints ?fps ?w3"
      using assms unfolding compareRun_eq Let_def by simp
    then show ?thesis
      by simp
  next
    case dispatch
    obtain r4 w4 where n: "notifyNewListings P ?gn ?w3 = (r4, w4)"
      by (cases "notifyNewListings P ?gn ?w3")
    have p4: "persistedIds w4 = persistedIds ?w3"
      using persisted_cong(1) [OF notifyNewListings_frame(1) [OF n]] .
    have c: "compareRun P allListings w =
        (case r4 of Inl err \<Rightarrow> (Inl err, w4)
         | Inr u \<Rightarrow> (Inr (), addSeenFingerprints ?fps w4))"
      unfolding compareRun_eq Let_def using dispatch n by (simp split: sum.split)
    have "w' = w4 \<or> w' = addSeenFingerprints ?fps w4"
      using c assms by (cases r4) simp_all
    then have "persistedIds w' = persistedIds ?w3"
      using p4 by auto
    then show ?thesis
      by simp
  qed
qed

text \<open>
  C1. On a run that is not the first (the identity key exists) with a non-empty batch,
  write \<open>seenIds\<close> and \<open>seenFps\<close> for the two persisted sets at the start of the run. The
  loop of \<^verbatim>\<open>main\<close> computes as genuinely new exactly the listings of the batch whose id is
  not in \<open>seenIds\<close> and whose fingerprint is not in \<open>seenFps\<close>, and as reposts exactly those
  whose id is not in \<open>seenIds\<close> and whose fingerprint is in \<open>seenFps\<close>. The run is then
  determined by these lists: with no new id it only re-syncs the fingerprints, otherwise it
  records the new ids and hands exactly the genuinely-new listings to the dispatcher. So
  the listing messages of the run are those of the genuinely-new listings, in order (none
  when a summary is due and its send fails); the identity set grows by the ids of the
  genuinely-new listings and of the reposts; and a listing whose id is in \<open>seenIds\<close> is
  in neither list.
\<close>

theorem classification_partition:
  assumes "validateEnv e = Inr ()"
    and "scrapeAll P (collectUrls e) [] w = (Inr allListings, w1)"
    and "allListings \<noteq> []"
    and "redis w REDIS_KEY \<noteq> None"
    and "main P e w = (r, w')"
  shows "let seenIds = persistedIds w;
             seenFps = persistedFingerprints w;
             newByIdListings = filter (\<lambda>l. listing_id l \<notin> seenIds) allListings;
             genuinelyNew = filter (\<lambda>l. listing_id l \<notin> seenIds
                                        \<and> getFingerprint l \<notin> seenFps) allListings;
             reposts = filter (\<lambda>l. listing_id l \<notin> seenIds
                                   \<and> getFingerprint l \<in> seenFps) allListings;
             w2 = emit (SMembers FINGERPRINT_KEY) (emit (SMembers REDIS_KEY)
                    (emit (Exists REDIS_KEY) w1));
             w3 = addSeenIds (map listing_id newByIdListings) w2;
             fps = map getFingerprint allListings
         in classify seenFps newByIdListings ([], []) = (genuinelyNew, reposts)
          \<and> (r, w') =
               (if newByIdListings = [] then (Inr (), addSeenFingerprints fps w2)
                else if genuinelyNew = [] then (Inr (), addSeenFingerprints fps w3)
                else (case notifyNewListings P genuinelyNew w3 of
                        (Inl err, w4) \<Rightarrow> (Inl err, w4)
                      | (Inr u, w4) \<Rightarrow> (Inr (), addSeenFingerprints fps w4)))
          \<and> filter isListingSend (newEvents w w') =
               (if 5 \<le> length genuinelyNew
                   \<and> transport P (sends w) (Summary (length genuinelyNew)) \<noteq> None
                then [] else map (\<lambda>l. Send (NewListing l)) genuinelyNew)
          \<and> persistedIds w' =
               seenIds \<union> set (map listing_id genuinelyNew) \<union> set (map listing_id reposts)
          \<and> (\<forall>l \<in> set allListings.
                if listing_id l \<in> seenIds then l \<notin> set genuinelyNew \<and> l \<notin> set reposts
                else if getFingerprint l \<in> seenFps
                  then l \<in> set reposts \<and> l \<notin> set genuinelyNew
                else l \<in> set genuinelyNew \<and> l \<notin> set reposts)"
proof -
  let ?S = "persistedIds w" and ?F = "persistedFingerprints w"
  let ?new = "filter (\<lambda>l. listing_id l \<notin> ?S) allListings"
  let ?gn = "filter (\<lambda>l. listing_id l \<notin> ?S \<and> getFingerprint l \<notin> ?F) allListings"
  let ?rp = "filter (\<lambda>l. listing_id l \<notin> ?S \<and> getFingerprint l \<in> ?F) allListings"
  let ?w0 = "emit (Exists REDIS_KEY) w1"
  let ?w2 = "emit (SMembers FINGERPRINT_KEY) (emit (SMembers REDIS_KEY) ?w0)"
  let ?w3 = "addSeenIds (map listing_id ?new) ?w2"
  let ?fps = "map getFingerprint allListings"
  from scrapeAll_frame [OF assms(2)] obtain fs where
    fr: "redis w1 = redis w" "sends w1 = sends w" "trace w1 = trace w @ fs"
      "\<forall>ev \<in> set fs. isFetchEvent ev"
    by blast
  have p: "persistedIds ?w0 = ?S" "persistedFingerprints ?w0 = ?F"
    using persisted_cong [OF fr(1)] by simp_all
  have s0: "sends ?w0 = sends w"
    using fr(2) by simp
  have c: "compareRun P allListings ?w0 = (r, w')"
    using main_compare [OF assms(1-4)] assms(5) by simp
  have gn: "filter (\<lambda>l. getFingerprint l \<notin> ?F) ?new = ?gn"
    by (simp add: conj_commute)
  have cl: "classify ?F ?new ([], []) = (?gn, ?rp)"
    by (simp add: classify_filter conj_commute)
  have eq: "(r, w') =
      (if ?new = [] then (Inr (), addSeenFingerprints ?fps ?w2)
       else if ?gn = [] then (Inr (), addSeenFingerprints ?fps ?w3)
       else (case notifyNewListings P ?gn ?w3 of
               (Inl err, w4) \<Rightarrow> (Inl err, w4)
             | (Inr u, w4) \<Rightarrow> (Inr (), addSeenFingerprints ?fps w4)))"
    using c unfolding compareRun_eq p Let_def gn by (simp split: prod.split sum.split)
  from compareRun_listing_sends [OF c, unfolded p s0] obtain evs where
    t: "trace w' = trace ?w0 @ evs"
    and ls: "filter isListingSend evs =
        (if 5 \<le> length ?gn \<and> transport P (sends w) (Summary (length ?gn)) \<noteq> None then []
         else map (\<lambda>l. Send (NewListing l)) ?gn)"
    by blast
  have "trace w' = trace w @ (fs @ Exists REDIS_KEY # evs)"
    using t fr(3) by simp
  then have "newEvents w w' = fs @ Exists REDIS_KEY # evs"
    by (rule newEvents_append)
  then have sends: "filter isListingSend (newEvents w w') =
        (if 5 \<le> length ?gn \<and> transport P (sends w) (Summary (length ?gn)) \<noteq> None then []
         else map (\<lambda>l. Send (NewListing l)) ?gn)"
    using ls no_listing_send_in_fetch [OF fr(4)] by simp
  have "set (map listing_id ?new) = set (map listing_id ?gn) \<union> set (map listing_id ?rp)"
    by auto
  then have ids: "persistedIds w' = ?S \<union> set (map listing_id ?gn) \<union> set (map listing_id ?rp)"
    using compareRun_persistedIds [OF c, unfolded p] by (simp add: Un_assoc)
  have part: "\<forall>l \<in> set allListings.
                if listing_id l \<in> ?S then l \<notin> set ?gn \<and> l \<notin> set ?rp
                else if getFingerprint l \<in> ?F
                  then l \<in> set ?rp \<and> l \<notin> set ?gn
                else l \<in> set ?gn \<and> l \<notin> set ?rp"
    by simp
  show ?thesis
    unfolding Let_def using cl eq sends ids part by (intro conjI)
qed

theorem classification_partition_witness:
  "validateEnv envOk = Inr () \<and> scrapedListings \<noteq> [] \<and> redis seededWorld REDIS_KEY \<noteq> None
   \<and> classify (persistedFingerprints seededWorld)
        (filter (\<lambda>l. listing_id l \<notin> persistedIds seededWorld) scrapedListings) ([], [])
      = ([scraped2001], [scraped9999])
   \<and> filter isListingSend (newEvents seededWorld
        (snd (main (site (returns scrapedListings) sendsOk) envOk seededWorld)))
      = [Send (NewListing scraped2001)]
   \<and> persistedIds (snd (main (site (returns scrapedListings) sendsOk) envOk seededWorld))
      = {''1001'', ''1002'', ''9999'', ''2001''}
   \<and> scraped1001 \<notin> set [scraped2001] \<and> scraped1001 \<notin> set [scraped9999]"
proof -
  have m: "main (site (returns scrapedListings) sendsOk) envOk seededWorld
      = (fst (main (site (returns scrapedListings) sendsOk) envOk seededWorld),
         snd (main (site (returns scrapedListings) sendsOk) envOk seededWorld))"
    by simp
  note th = classification_partition [OF validate_envOk scenarioB_fetch addListings_scraped(2)
      seededWorld_simps(1) m, unfolded Let_def]
  have gn: "filter (\<lambda>l. listing_id l \<notin> persistedIds seededWorld
               \<and> getFingerprint l \<notin> persistedFingerprints seededWorld) scrapedListings
            = [scraped2001]"
    and rp: "filter (\<lambda>l. listing_id l \<notin> persistedIds seededWorld
               \<and> getFingerprint l \<in> persistedFingerprints seededWorld) scrapedListings
            = [scraped9999]"
    by (simp_all add: scrapedListings_def)
  have c: "classify (persistedFingerprints seededWorld)
        (filter (\<lambda>l. listing_id l \<notin> persistedIds seededWorld) scrapedListings) ([], [])
      = ([scraped2001], [scraped9999])"
    using th [THEN conjunct1] unfolding gn rp .
  have s: "filter isListingSend (newEvents seededWorld
        (snd (main (site (returns scrapedListings) sendsOk) envOk seededWorld)))
      = [Send (NewListing scraped2001)]"
    using th [THEN conjunct2, THEN conjunct2, THEN conjunct1] unfolding gn by simp
  have i: "persistedIds (snd (main (site (returns scrapedListings) sendsOk) envOk seededWorld))
      = {''1001'', ''1002'', ''9999'', ''2001''}"
    using th [THEN conjunct2, THEN conjunct2, THEN conjunct2, THEN conjunct1]
    unfolding gn rp by (simp add: insert_commute)
  have "\<forall>l \<in> set scrapedListings.
      if listing_id l \<in> persistedIds seededWorld
      then l \<notin> set [scraped2001] \<and> l \<notin> set [scraped9999]
      else if getFingerprint l \<in> persistedFingerprints seededWorld
        then l \<in> set [scraped9999] \<and> l \<notin> set [scraped2001]
      else l \<in> set [scraped2001] \<and> l \<notin> set [scraped9999]"
    using th [THEN conjunct2, THEN conjunct2, THEN conjunct2, THEN conjunct2]
    unfolding gn rp .
  then have d: "scraped1001 \<notin> set [scraped2001] \<and> scraped1001 \<notin> set [scraped9999]"
    by (simp add: scrapedListings_def)
  show ?thesis
    using c s i d by simp
qed

section \<open>The store when dispatch is attempted\<close>

lemma split_before_suffix:
  "ds @ fin = pre @ x # post \<Longrightarrow> x \<notin> set fin \<Longrightarrow> \<exists>post'. ds = pre @ x # post'"
  by (auto simp: append_eq_append_conv2 append_eq_Cons_conv)

lemma compareRun_dispatch_shape:
  assumes "compareRun P allListings w = (r, w')"
    and "filter (\<lambda>l. listing_id l \<notin> persistedIds w) allListings \<noteq> []"
  shows "\<exists>ds fin.
      trace w' = trace (addSeenIds
          (map listing_id (filter (\<lambda>l. listing_id l \<notin> persistedIds w) allListings))
          (emit (SMembers FINGERPRINT_KEY) (emit (SMembers REDIS_KEY) w))) @ ds @ fin
    \<and> (\<forall>ev \<in> set ds. \<not> isStoreEvent ev)
    \<and> (\<forall>l. Send (NewListing l) \<in> set ds \<longrightarrow>
          l \<in> set (filter (\<lambda>l. listing_id l \<notin> persistedIds w) allListings))
    \<and> (\<forall>m. Send m \<in> set fin \<longrightarrow> \<not> isDispatch m)
    \<and> redis w' = storeAfter fin (redis (addSeenIds
          (map listing_id (filter (\<lambda>l. listing_id l \<notin> persistedIds w) allListings))
          (emit (SMembers FINGERPRINT_KEY) (emit (SMembers REDIS_KEY) w))))"
proof -
  let ?w2 = "emit (SMembers FINGERPRINT_KEY) (emit (SMembers REDIS_KEY) w)"
  let ?new = "filter (\<lambda>l. listing_id l \<notin> persistedIds w) allListings"
  let ?gn = "filter (\<lambda>l. getFingerprint l \<notin> persistedFingerprints w) ?new"
  let ?fps = "map getFingerprint allListings"
  let ?w3 = "addSeenIds (map listing_id ?new) ?w2"
  let ?fin = "if ?fps = [] then []
              else [SAdd FINGERPRINT_KEY ?fps, Expire FINGERPRINT_KEY TTL_SECONDS]"
  have fin: "\<forall>m. Send m \<in> set ?fin \<longrightarrow> \<not> isDispatch m"
    by simp
  have sync: "trace (addSeenFingerprints ?fps v) = trace v @ ?fin"
    "redis (addSeenFingerprints ?fps v) = storeAfter ?fin (redis v)" for v
    by (simp_all add: addSeenFingerprints_trace addSeenFingerprints_redis)
  show ?thesis
  proof (cases "?gn = []")
    case True
    then have w': "w' = addSeenFingerprints ?fps ?w3"
      using assms unfolding compareRun_eq Let_def by simp
    have "trace w' = trace ?w3 @ [] @ ?fin" "redis w' = storeAfter ?fin (redis ?w3)"
      unfolding w' by (simp_all only: sync append_Nil)
    with fin show ?thesis
      by - (rule exI [of _ "[]"], rule exI [of _ ?fin], simp)
  next
    case False
    obtain r4 w4 where n: "notifyNewListings P ?gn ?w3 = (r4, w4)"
      by (cases "notifyNewListings P ?gn ?w3")
    from notifyNewListings_frame(2) [OF n] obtain ds where
      ds: "trace w4 = trace ?w3 @ ds"
        "\<forall>ev \<in> set ds. \<not> isStoreEvent ev
           \<and> (\<forall>m. ev = Send m \<longrightarrow> isDispatch m \<and> (\<forall>l. m = NewListing l \<longrightarrow> l \<in> set ?gn))"
      by blast
    have ns: "\<forall>ev \<in> set ds. \<not> isStoreEvent ev"
      using ds(2) by blast
    have dl: "\<forall>l. Send (NewListing l) \<in> set ds \<longrightarrow> l \<in> set ?new"
      using ds(2) by auto
    have r4': "redis w4 = redis ?w3"
      using notifyNewListings_frame(1) [OF n] .
    have c: "compareRun P allListings w =
        (case r4 of Inl err \<Rightarrow> (Inl err, w4)
         | Inr u \<Rightarrow> (Inr (), addSeenFingerprints ?fps w4))"
      unfolding compareRun_eq Let_def using assms(2) False n by (simp split: sum.split)
    show ?thesis
    proof (cases r4)
      case (Inl err)
      then have "w' = w4"
        using c assms(1) by simp
      then have "trace w' = trace ?w3 @ ds @ []" "redis w' = storeAfter [] (redis ?w3)"
        using ds(1) r4' by simp_all
      with ns dl show ?thesis
        by - (rule exI [of _ ds], rule exI [of _ "[]"], simp)
    next
      case (Inr u)
      then have w': "w' = addSeenFingerprints ?fps w4"
        using c assms(1) by simp
      have "trace w' = trace ?w3 @ ds @ ?fin" "redis w' = storeAfter ?fin (redis ?w3)"
        unfolding w' sync ds(1) r4' by simp_all
      with ns dl fin show ?thesis
        by - (rule exI [of _ ds], rule exI [of _ ?fin], simp)
    qed
  qed
qed

text \<open>
  C3. On the new-listing path of a run that is not the first (some listing of the batch
  has an id that is not in the identity set), let \<open>w3\<close> be the world right after
  \<^verbatim>\<open>addSeenIds\<close>. In \<open>w3\<close> the identity set of the store holds the ids of all new-by-id
  listings, genuinely new and reposts alike, and nothing has been sent yet. The rest of
  the run starts from \<open>w3\<close>: the dispatcher is called there when some listing is genuinely
  new, and is not called at all otherwise. The store the run leaves is its first store
  after the commands of its trace, and its identity set is the one of before together with
  these ids. At every point of the run where a message of the dispatcher (the summary or
  a listing message) is sent, the store is the store of \<open>w3\<close>: the write of the ids is
  among the events before that point, the identity set holds all of them, and it holds
  the id of the listing being notified.
\<close>

theorem ids_written_before_dispatch:
  assumes "validateEnv e = Inr ()"
    and "scrapeAll P (collectUrls e) [] w = (Inr allListings, w1)"
    and "redis w REDIS_KEY \<noteq> None"
    and "filter (\<lambda>l. listing_id l \<notin> persistedIds w) allListings \<noteq> []"
    and "main P e w = (r, w')"
  shows "let newByIdListings = filter (\<lambda>l. listing_id l \<notin> persistedIds w) allListings;
             genuinelyNew = filter (\<lambda>l. listing_id l \<notin> persistedIds w
                                \<and> getFingerprint l \<notin> persistedFingerprints w) allListings;
             ids = map listing_id newByIdListings;
             fps = map getFingerprint allListings;
             w3 = addSeenIds ids
                    (emit (SMembers FINGERPRINT_KEY) (emit (SMembers REDIS_KEY)
                       (emit (Exists REDIS_KEY) w1)))
         in set ids \<subseteq> persistedIds w3
          \<and> persistedIds w3 = identityMembers (redis w3)
          \<and> filter isSend (newEvents w w3) = []
          \<and> redis w3 = storeAfter (newEvents w w3) (redis w)
          \<and> (r, w') =
               (if genuinelyNew = [] then (Inr (), addSeenFingerprints fps w3)
                else (case notifyNewListings P genuinelyNew w3 of
                        (Inl err, w4) \<Rightarrow> (Inl err, w4)
                      | (Inr u, w4) \<Rightarrow> (Inr (), addSeenFingerprints fps w4)))
          \<and> redis w' = storeAfter (newEvents w w') (redis w)
          \<and> persistedIds w' = persistedIds w \<union> set ids
          \<and> (\<forall>pre m post. newEvents w w' = pre @ Send m # post \<and> isDispatch m \<longrightarrow>
                storeAfter pre (redis w) = redis w3
              \<and> set ids \<subseteq> idsWritten pre
              \<and> set ids \<subseteq> identityMembers (storeAfter pre (redis w))
              \<and> (\<forall>l. m = NewListing l \<longrightarrow>
                    listing_id l \<in> identityMembers (storeAfter pre (redis w))))"
proof -
  let ?S = "persistedIds w" and ?F = "persistedFingerprints w"
  let ?new = "filter (\<lambda>l. listing_id l \<notin> ?S) allListings"
  let ?gn = "filter (\<lambda>l. listing_id l \<notin> ?S \<and> getFingerprint l \<notin> ?F) allListings"
  let ?ids = "map listing_id ?new"
  let ?fps = "map getFingerprint allListings"
  let ?w0 = "emit (Exists REDIS_KEY) w1"
  let ?w2 = "emit (SMembers FINGERPRINT_KEY) (emit (SMembers REDIS_KEY) ?w0)"
  let ?w3 = "addSeenIds ?ids ?w2"
  let ?hd = "[Exists REDIS_KEY, SMembers REDIS_KEY, SMembers FINGERPRINT_KEY,
              SAdd REDIS_KEY ?ids, Expire REDIS_KEY TTL_SECONDS]"
  from scrapeAll_frame [OF assms(2)] obtain fs where
    fr: "redis w1 = redis w" "sends w1 = sends w" "trace w1 = trace w @ fs"
      "\<forall>ev \<in> set fs. isFetchEvent ev"
    by blast
  have ne: "allListings \<noteq> []"
    using assms(4) by auto
  have idsne: "?ids \<noteq> []"
    using assms(4) by simp
  have p: "persistedIds ?w0 = ?S" "persistedFingerprints ?w0 = ?F"
    using persisted_cong [OF fr(1)] by simp_all
  have c: "compareRun P allListings ?w0 = (r, w')"
    using main_compare [OF assms(1,2) ne assms(3)] assms(5) by simp
  have gn: "filter (\<lambda>l. getFingerprint l \<notin> ?F) ?new = ?gn"
    by (simp add: conj_commute)
  have in3: "set ?ids \<subseteq> persistedIds ?w3"
    by simp
  have id3: "persistedIds ?w3 = identityMembers (redis ?w3)"
    by (rule persistedIds_identity)
  have t3: "trace ?w3 = trace w @ (fs @ ?hd)"
    using idsne fr(3) by (simp add: addSeenIds_trace)
  have ev3: "newEvents w ?w3 = fs @ ?hd"
    using t3 by (rule newEvents_append)
  have nos: "filter isSend (newEvents w ?w3) = []"
    unfolding ev3 using no_send_in_fetch [OF fr(4)] by simp
  have r3: "redis ?w3 = storeAfter (newEvents w ?w3) (redis w)"
    unfolding ev3 using idsne fr(1)
    by (simp add: storeAfter_append storeAfter_fetch [OF fr(4)] addSeenIds_redis)
  have eq: "(r, w') =
      (if ?gn = [] then (Inr (), addSeenFingerprints ?fps ?w3)
       else (case notifyNewListings P ?gn ?w3 of
               (Inl err, w4) \<Rightarrow> (Inl err, w4)
             | (Inr u, w4) \<Rightarrow> (Inr (), addSeenFingerprints ?fps w4)))"
    using c assms(4) unfolding compareRun_eq p Let_def gn
    by (simp split: prod.split sum.split)
  from compareRun_dispatch_shape [OF c, unfolded p, OF assms(4)] obtain ds fin where
    t: "trace w' = trace ?w3 @ ds @ fin"
    and ns: "\<forall>ev \<in> set ds. \<not> isStoreEvent ev"
    and dl: "\<forall>l. Send (NewListing l) \<in> set ds \<longrightarrow> l \<in> set ?new"
    and nd: "\<forall>m. Send m \<in> set fin \<longrightarrow> \<not> isDispatch m"
    and rf: "redis w' = storeAfter fin (redis ?w3)"
    by blast
  have ev: "newEvents w w' = (fs @ ?hd) @ ds @ fin"
    using t t3 by (simp add: newEvents_def)
  have rw: "redis w' = storeAfter (newEvents w w') (redis w)"
    unfolding ev rf r3 ev3
    by (simp only: storeAfter_append storeAfter_no_store_event [OF ns])
  have pw: "persistedIds w' = ?S \<union> set ?ids"
    using compareRun_persistedIds [OF c, unfolded p] .
  have at: "storeAfter pre (redis w) = redis ?w3
              \<and> set ?ids \<subseteq> idsWritten pre
              \<and> set ?ids \<subseteq> identityMembers (storeAfter pre (redis w))
              \<and> (\<forall>l. m = NewListing l \<longrightarrow>
                    listing_id l \<in> identityMembers (storeAfter pre (redis w)))"
    if sp: "newEvents w w' = pre @ Send m # post" and d: "isDispatch m" for pre m post
  proof -
    have nx: "Send m \<notin> set (fs @ ?hd)"
      using no_dispatch_in_fetch [OF fr(4)] by auto
    have e: "(fs @ ?hd) @ (ds @ fin) = pre @ Send m # post"
      using ev sp by simp
    from split_after_prefix [OF e nx] obtain mid where
      pre: "pre = (fs @ ?hd) @ mid" and rest: "ds @ fin = mid @ Send m # post"
      by blast
    have nf: "Send m \<notin> set fin"
      using nd d by blast
    from split_before_suffix [OF rest nf] obtain post' where
      dsm: "ds = mid @ Send m # post'"
      by blast
    have nm: "\<forall>ev \<in> set mid. \<not> isStoreEvent ev"
      using ns unfolding dsm by simp
    have st: "storeAfter pre (redis w) = redis ?w3"
      unfolding pre r3 ev3
      by (simp only: storeAfter_append storeAfter_no_store_event [OF nm])
    have wr: "set ?ids \<subseteq> idsWritten pre"
      unfolding pre by (auto simp: idsWritten_append)
    have mem: "set ?ids \<subseteq> identityMembers (storeAfter pre (redis w))"
      unfolding st by (rule in3 [unfolded id3])
    have "listing_id l \<in> identityMembers (storeAfter pre (redis w))" if "m = NewListing l" for l
    proof -
      have "Send (NewListing l) \<in> set ds"
        unfolding dsm using that by simp
      then have "l \<in> set ?new"
        using dl by blast
      then have "listing_id l \<in> set ?ids"
        unfolding set_map by (rule imageI)
      then show ?thesis
        using mem by blast
    qed
    with st wr mem show ?thesis by blast
  qed
  show ?thesis
    unfolding Let_def using in3 id3 nos r3 eq rw pw at by (intro conjI allI impI) blast+
qed

theorem ids_written_before_dispatch_witness:
  "validateEnv envOk = Inr () \<and> redis seededWorld REDIS_KEY \<noteq> None
   \<and> filter (\<lambda>l. listing_id l \<notin> persistedIds seededWorld) scrapedListings
       = [scraped9999, scraped2001]
   \<and> newEvents seededWorld
        (snd (main (site (returns scrapedListings) sendsOk) envOk seededWorld))
      = [Goto ''https://www.njuskalo.hr/x'' 1,
         Exists REDIS_KEY, SMembers REDIS_KEY, SMembers FINGERPRINT_KEY,
         SAdd REDIS_KEY [''9999'', ''2001''], Expire REDIS_KEY TTL_SECONDS]
        @ Send (NewListing scraped2001)
        # [Delay 500,
           SAdd FINGERPRINT_KEY [''zapresic, kuca, 95 m2|200.000EUR'',
                                 ''sveta nedelja, kuca, 150 m2|300.000EUR'',
                                 ''bregana, kuca, 200 m2|250.000EUR''],
           Expire FINGERPRINT_KEY TTL_SECONDS]
   \<and> isDispatch (NewListing scraped2001)
   \<and> {''9999'', ''2001''} \<subseteq>
        identityMembers (storeAfter
          [Goto ''https://www.njuskalo.hr/x'' 1,
           Exists REDIS_KEY, SMembers REDIS_KEY, SMembers FINGERPRINT_KEY,
           SAdd REDIS_KEY [''9999'', ''2001''], Expire REDIS_KEY TTL_SECONDS]
          (redis seededWorld))
   \<and> persistedIds (snd (main (site (returns scrapedListings) sendsOk) envOk seededWorld))
      = {''1001'', ''1002'', ''9999'', ''2001''}"
proof -
  have m: "main (site (returns scrapedListings) sendsOk) envOk seededWorld
      = (fst (main (site (returns scrapedListings) sendsOk) envOk seededWorld),
         snd (main (site (returns scrapedListings) sendsOk) envOk seededWorld))"
    by simp
  have new: "filter (\<lambda>l. listing_id l \<notin> persistedIds seededWorld) scrapedListings
       = [scraped9999, scraped2001]"
    by (simp add: scrapedListings_def)
  have ne: "filter (\<lambda>l. listing_id l \<notin> persistedIds seededWorld) scrapedListings \<noteq> []"
    unfolding new by simp
  have sp: "newEvents seededWorld
        (snd (main (site (returns scrapedListings) sendsOk) envOk seededWorld))
      = [Goto ''https://www.njuskalo.hr/x'' 1,
         Exists REDIS_KEY, SMembers REDIS_KEY, SMembers FINGERPRINT_KEY,
         SAdd REDIS_KEY [''9999'', ''2001''], Expire REDIS_KEY TTL_SECONDS]
        @ Send (NewListing scraped2001)
        # [Delay 500,
           SAdd FINGERPRINT_KEY [''zapresic, kuca, 95 m2|200.000EUR'',
                                 ''sveta nedelja, kuca, 150 m2|300.000EUR'',
                                 ''bregana, kuca, 200 m2|250.000EUR''],
           Expire FINGERPRINT_KEY TTL_SECONDS]"
    by (simp add: newEvents_def scenarioB_trace)
  have d: "isDispatch (NewListing scraped2001)"
    by simp
  note th = ids_written_before_dispatch [OF validate_envOk scenarioB_fetch
      seededWorld_simps(1) ne m, unfolded Let_def new]
  note at = th [THEN conjunct2, THEN conjunct2, THEN conjunct2, THEN conjunct2,
      THEN conjunct2, THEN conjunct2, THEN conjunct2, rule_format, OF conjI [OF sp d]]
  have mem: "{''9999'', ''2001''} \<subseteq>
        identityMembers (storeAfter
          [Goto ''https://www.njuskalo.hr/x'' 1,
           Exists REDIS_KEY, SMembers REDIS_KEY, SMembers FINGERPRINT_KEY,
           SAdd REDIS_KEY [''9999'', ''2001''], Expire REDIS_KEY TTL_SECONDS]
          (redis seededWorld))"
    using at [THEN conjunct2, THEN conjunct2, THEN conjunct1] by simp
  have ids: "persistedIds (snd (main (site (returns scrapedListings) sendsOk) envOk seededWorld))
      = {''1001'', ''1002'', ''9999'', ''2001''}"
    using th [THEN conjunct2, THEN conjunct2, THEN conjunct2, THEN conjunct2,
      THEN conjunct2, THEN conjunct2, THEN conjunct1]
    by (simp add: insert_commute)
  show ?thesis
    using new sp d mem ids by simp
qed

end
